theory Spec2Isabelle
  imports Main
begin

section \<open>The sql package: types, columns, schemas, rows\<close>

text \<open>
  The declaration of \<open>sql.Type\<close> is not among the sources; the constructors below are
  the type names the sources mention (\<open>sql.Text\<close> in the tree entries table,
  \<open>sql.Integer\<close>, \<open>sql.String\<close> and \<open>sql.Boolean\<close> in the expression tests).
  The method \<open>Compare\<close> of a type is taken as a parameter wherever the code calls it.
\<close>

datatype Type = Text | Integer | String | Boolean

text \<open>A value of Go's \<open>interface{}\<close> as the rows of this program hold it.\<close>

datatype Value = Null | IntV int | StrV string | BoolV bool

type_synonym Row = "Value list"

record Column =
  Name :: string
  Type :: Type
  Nullable :: bool
  Source :: string

type_synonym Schema = "Column list"

section \<open>The tree entries table (tree\_entries.go)\<close>

text \<open>Modelled from the spec: the constant \<open>TreeEntriesTableName\<close> is declared outside
  the sources; the spec names the table \<open>tree_entries\<close>.\<close>

definition TreeEntriesTableName :: string where
  "TreeEntriesTableName = ''tree_entries''"

definition TreeEntriesSchema :: Schema where
  "TreeEntriesSchema =
    [\<lparr>Name = ''repository_id'', Type = Text, Nullable = False, Source = TreeEntriesTableName\<rparr>,
     \<lparr>Name = ''tree_entry_name'', Type = Text, Nullable = False, Source = TreeEntriesTableName\<rparr>,
     \<lparr>Name = ''blob_hash'', Type = Text, Nullable = False, Source = TreeEntriesTableName\<rparr>,
     \<lparr>Name = ''tree_hash'', Type = Text, Nullable = False, Source = TreeEntriesTableName\<rparr>,
     \<lparr>Name = ''tree_entry_mode'', Type = Text, Nullable = False, Source = TreeEntriesTableName\<rparr>]"

section \<open>The Sort node (sql/plan/sort.go)\<close>

datatype SortOrder = Ascending | Descending

record SortField =
  Column :: string
  Order :: SortOrder

text \<open>A call either returns or panics; the panic carries its message.\<close>

datatype 'a outcome = Returned 'a | Panicked string

text \<open>A child node, as far as Sort reads it: its schema.\<close>

record Node =
  node_Schema :: Schema

record Sort =
  fieldIndexes :: "nat list"
  fieldTypes :: "Type list"
  Child :: Node
  sortFields :: "SortField list"

text \<open>The inner loop of \<open>NewSort\<close>: the first column of the child schema, from index
  \<open>idx\<close> on, whose name is the sort column; \<open>None\<close> is \<open>found == false\<close>.\<close>

fun findField :: "Schema \<Rightarrow> string \<Rightarrow> nat \<Rightarrow> (nat \<times> Type) option" where
  "findField [] c idx = None"
| "findField (field # rest) c idx =
     (if Name field = c then Some (idx, Type field) else findField rest c (Suc idx))"

text \<open>The outer loop of \<open>NewSort\<close>, with the two slices it appends to.\<close>

fun NewSort_loop ::
  "SortField list \<Rightarrow> Schema \<Rightarrow> nat list \<Rightarrow> Type list \<Rightarrow> (nat list \<times> Type list) outcome" where
  "NewSort_loop [] childSchema indexes types = Returned (indexes, types)"
| "NewSort_loop (sortField # rest) childSchema indexes types =
     (case findField childSchema (Column sortField) 0 of
        None \<Rightarrow> Panicked (''Field '' @ Column sortField @ '' not found in child'')
      | Some (idx, t) \<Rightarrow> NewSort_loop rest childSchema (indexes @ [idx]) (types @ [t]))"

definition NewSort :: "SortField list \<Rightarrow> Node \<Rightarrow> Sort outcome" where
  "NewSort sfs child =
     (case NewSort_loop sfs (node_Schema child) [] [] of
        Panicked msg \<Rightarrow> Panicked msg
      | Returned (indexes, types) \<Rightarrow>
          Returned \<lparr>fieldIndexes = indexes, fieldTypes = types, Child = child, sortFields = sfs\<rparr>)"

text \<open>The position a sort field is to record: the first column of that name.\<close>

definition first_match :: "Schema \<Rightarrow> string \<Rightarrow> nat \<Rightarrow> bool" where
  "first_match schema c i \<longleftrightarrow>
     i < length schema \<and> Name (schema ! i) = c \<and> (\<forall>j<i. Name (schema ! j) \<noteq> c)"

text \<open>A child schema with a repeated column name, for the examples.\<close>

definition example_schema :: Schema where
  "example_schema =
    [\<lparr>Name = ''a'', Type = Integer, Nullable = False, Source = ''t''\<rparr>,
     \<lparr>Name = ''b'', Type = String, Nullable = False, Source = ''t''\<rparr>,
     \<lparr>Name = ''b'', Type = Integer, Nullable = False, Source = ''t''\<rparr>]"

definition example_child :: Node where
  "example_child = \<lparr>node_Schema = example_schema\<rparr>"

section \<open>Errors and row iterators\<close>

text \<open>The error values the modelled code returns or compares with; \<open>Failure\<close> is any
  other error a collaborator hands back.\<close>

datatype error =
    EOF
  | ErrObjectNotFound
  | ErrInvalid
  | ErrSchemeNotSupported string
  | ErrBblfshConnection
  | ErrInvalidObjectType
  | Failure string

text \<open>
  A row iterator handed to the modelled code (\<open>sql.RowIter\<close> is an interface) is the
  sequence of results its successive \<open>Next\<close> calls return, a row or an error; once the
  sequence is used up, \<open>Next\<close> reports \<open>io.EOF\<close>. A Sort materialises its child,
  so it only ever returns on children with finitely many rows.
\<close>

type_synonym RowIter = "(error + Row) list"

section \<open>The Sort iterator (sql/plan/sort.go)\<close>

record sorter =
  sorter_indexes :: "nat list"
  sorter_types :: "Type list"
  sorter_rows :: "Row list"

text \<open>The loop of \<open>sorter.Less\<close> over \<open>s.indexes\<close>, on the fields \<open>a\<close> and \<open>b\<close>
  of the two rows; \<open>tys\<close> is \<open>s.types\<close> from the current position on. Indexing outside
  a slice panics. The sort order of a field is not an input of this function.\<close>

fun Less_loop ::
  "(Type \<Rightarrow> Value \<Rightarrow> Value \<Rightarrow> int) \<Rightarrow> nat list \<Rightarrow> Type list \<Rightarrow> Row \<Rightarrow> Row \<Rightarrow> bool outcome" where
  "Less_loop Compare [] tys a b = Returned False"
| "Less_loop Compare (idx # rest) [] a b = Panicked ''index out of range''"
| "Less_loop Compare (idx # rest) (typ # tys) a b =
     (if idx < length a \<and> idx < length b
      then (if Compare typ (a ! idx) (b ! idx) = - 1 then Returned True
            else Less_loop Compare rest tys a b)
      else Panicked ''index out of range'')"

definition Less ::
  "(Type \<Rightarrow> Value \<Rightarrow> Value \<Rightarrow> int) \<Rightarrow> sorter \<Rightarrow> nat \<Rightarrow> nat \<Rightarrow> bool outcome" where
  "Less Compare sr i j =
     (if i < length (sorter_rows sr) \<and> j < length (sorter_rows sr)
      then Less_loop Compare (sorter_indexes sr) (sorter_types sr)
             (sorter_rows sr ! i) (sorter_rows sr ! j)
      else Panicked ''index out of range'')"

text \<open>
  \<open>sort.Sort\<close> is Go's library, not this program: it is a parameter of the model. It
  is given the comparison \<open>Less\<close> of the sorter on the current contents of the slice and
  the slice, and returns the slice as it has rearranged it (or the panic of a comparison).
\<close>

type_synonym sort_Sort = "(Row list \<Rightarrow> nat \<Rightarrow> nat \<Rightarrow> bool outcome) \<Rightarrow> Row list \<Rightarrow> Row list outcome"

record sortIter =
  sortIter_s :: Sort
  childIter :: RowIter
  sortedRows :: "Row list"
  sortIter_idx :: int

definition newSortIter :: "Sort \<Rightarrow> RowIter \<Rightarrow> sortIter" where
  "newSortIter sn child =
     \<lparr>sortIter_s = sn, childIter = child, sortedRows = [], sortIter_idx = - 1\<rparr>"

text \<open>The \<open>for\<close> loop of \<open>computeSortedRows\<close>: it leaves with the rows at \<open>io.EOF\<close>
  and returns any other error; each call of the child's \<open>Next\<close> consumes one result.\<close>

fun computeSortedRows_loop :: "RowIter \<Rightarrow> Row list \<Rightarrow> (error + Row list) \<times> RowIter" where
  "computeSortedRows_loop [] rs = (Inr rs, [])"
| "computeSortedRows_loop (Inl err # child) rs =
     (if err = EOF then (Inr rs, child) else (Inl err, child))"
| "computeSortedRows_loop (Inr childRow # child) rs =
     computeSortedRows_loop child (rs @ [childRow])"

definition computeSortedRows ::
  "sort_Sort \<Rightarrow> (Type \<Rightarrow> Value \<Rightarrow> Value \<Rightarrow> int) \<Rightarrow> sortIter \<Rightarrow> (error option \<times> sortIter) outcome" where
  "computeSortedRows sort_Sort Compare i =
     (case computeSortedRows_loop (childIter i) [] of
        (Inl err, child) \<Rightarrow> Returned (Some err, i\<lparr>childIter := child\<rparr>)
      | (Inr rs, child) \<Rightarrow>
          (case sort_Sort
                  (\<lambda>cur. Less Compare
                     \<lparr>sorter_indexes = fieldIndexes (sortIter_s i),
                      sorter_types = fieldTypes (sortIter_s i),
                      sorter_rows = cur\<rparr>) rs of
             Panicked msg \<Rightarrow> Panicked msg
           | Returned srows \<Rightarrow>
               Returned (None, i\<lparr>childIter := child, sortedRows := srows\<rparr>)))"

text \<open>\<open>sortIter.Next\<close> from the test \<open>i.idx >= len(i.sortedRows)\<close> on.\<close>

definition Next_emit :: "sortIter \<Rightarrow> ((error + Row) \<times> sortIter) outcome" where
  "Next_emit i =
     (if sortIter_idx i \<ge> int (length (sortedRows i)) then Returned (Inl EOF, i)
      else if sortIter_idx i < 0 then Panicked ''index out of range''
      else Returned (Inr (sortedRows i ! nat (sortIter_idx i)),
                     i\<lparr>sortIter_idx := sortIter_idx i + 1\<rparr>))"

definition Next ::
  "sort_Sort \<Rightarrow> (Type \<Rightarrow> Value \<Rightarrow> Value \<Rightarrow> int) \<Rightarrow> sortIter \<Rightarrow> ((error + Row) \<times> sortIter) outcome" where
  "Next sort_Sort Compare i =
     (if sortIter_idx i = - 1
      then (case computeSortedRows sort_Sort Compare i of
              Panicked msg \<Rightarrow> Panicked msg
            | Returned (Some err, i') \<Rightarrow> Returned (Inl err, i')
            | Returned (None, i') \<Rightarrow> Next_emit (i'\<lparr>sortIter_idx := 0\<rparr>))
      else Next_emit i)"

text \<open>What the call of \<open>Next\<close> returns that follows \<open>n\<close> earlier calls.\<close>

fun Next_after ::
  "sort_Sort \<Rightarrow> (Type \<Rightarrow> Value \<Rightarrow> Value \<Rightarrow> int) \<Rightarrow> nat \<Rightarrow> sortIter \<Rightarrow> ((error + Row) \<times> sortIter) outcome" where
  "Next_after sort_Sort Compare 0 i = Next sort_Sort Compare i"
| "Next_after sort_Sort Compare (Suc n) i =
     (case Next sort_Sort Compare i of
        Panicked msg \<Rightarrow> Panicked msg
      | Returned (r, i') \<Rightarrow> Next_after sort_Sort Compare n i')"

text \<open>
  Instances of the two parameters for the examples. Go's package sort sorts a slice of
  a few elements by insertion sort (\<open>insertionSort\<close> in sort.go of the library).
  \<open>example_Compare\<close> compares integers as the comparison tests of the expression
  package expect of \<open>sql.Integer\<close>.
\<close>

fun insertionSort_inner ::
  "(Row list \<Rightarrow> nat \<Rightarrow> nat \<Rightarrow> bool outcome) \<Rightarrow> Row list \<Rightarrow> nat \<Rightarrow> Row list outcome" where
  "insertionSort_inner lt rs 0 = Returned rs"
| "insertionSort_inner lt rs (Suc j) =
     (case lt rs (Suc j) j of
        Panicked msg \<Rightarrow> Panicked msg
      | Returned False \<Rightarrow> Returned rs
      | Returned True \<Rightarrow> insertionSort_inner lt (rs[Suc j := rs ! j, j := rs ! Suc j]) j)"

fun insertionSort_outer ::
  "(Row list \<Rightarrow> nat \<Rightarrow> nat \<Rightarrow> bool outcome) \<Rightarrow> nat list \<Rightarrow> Row list \<Rightarrow> Row list outcome" where
  "insertionSort_outer lt [] rs = Returned rs"
| "insertionSort_outer lt (i # rest) rs =
     (case insertionSort_inner lt rs i of
        Panicked msg \<Rightarrow> Panicked msg
      | Returned rs' \<Rightarrow> insertionSort_outer lt rest rs')"

definition insertionSort :: sort_Sort where
  "insertionSort lt rs = insertionSort_outer lt [1..<length rs] rs"

definition example_Compare :: "Type \<Rightarrow> Value \<Rightarrow> Value \<Rightarrow> int" where
  "example_Compare typ a b =
     (case (a, b) of
        (IntV x, IntV y) \<Rightarrow> (if x < y then - 1 else if x = y then 0 else 1)
      | _ \<Rightarrow> 0)"

text \<open>A Sort on column a of the example child, descending, as \<open>NewSort\<close> builds it.\<close>

definition example_Sort :: Sort where
  "example_Sort =
     \<lparr>fieldIndexes = [0], fieldTypes = [Integer], Child = example_child,
      sortFields = [\<lparr>Column = ''a'', Order = Descending\<rparr>]\<rparr>"

text \<open>A child whose first \<open>Next\<close> fails and whose second returns a row.\<close>

definition example_failing_child :: RowIter where
  "example_failing_child = [Inl (Failure ''boom''), Inr [IntV 1]]"

section \<open>Git objects as tree\_entries.go reads them\<close>

text \<open>
  The packages \<open>plumbing\<close> and \<open>object\<close> belong to go-git. A \<open>plumbing.Hash\<close> is
  written as the text its \<open>String()\<close> gives; \<open>plumbing.NewHash\<close>, from the text of a
  query to a hash, is a parameter. Of an \<open>object.TreeEntry\<close> and an \<open>object.Tree\<close>
  the fields the code reads are kept.
\<close>

type_synonym Hash = string

record object_TreeEntry =
  entry_Name :: string
  entry_Mode :: nat
  entry_Hash :: Hash

record Tree =
  tree_Hash :: Hash
  Entries :: "object_TreeEntry list"

datatype Object = ObjCommit | ObjTree Tree | ObjBlob | ObjTag

text \<open>A repository: its identifier, the lookup \<open>Repo.TreeObject\<close> and the results of
  the successive \<open>Next\<close> calls of the iterator that \<open>Repo.TreeObjects\<close> opens
  (\<open>io.EOF\<close> once used up).\<close>

record Repository =
  repo_ID :: string
  repo_TreeObject :: "Hash \<Rightarrow> error + Tree"
  repo_TreeObjects :: "error + (error + Tree) list"

record TreeEntry =
  TreeHash :: Hash
  Entry :: object_TreeEntry

text \<open>Modelled from the spec: \<open>strconv.FormatInt(_, 8)\<close> is Go's library; the spec has
  the mode of a tree entry as text, octal. A file mode is unsigned, so there is no sign.\<close>

fun FormatInt8 :: "nat \<Rightarrow> string" where
  "FormatInt8 n =
     (if n < 8 then [''01234567'' ! n] else FormatInt8 (n div 8) @ [''01234567'' ! (n mod 8)])"

declare FormatInt8.simps [simp del]

definition treeEntryToRow :: "string \<Rightarrow> TreeEntry \<Rightarrow> Row" where
  "treeEntryToRow repoID entry =
     [StrV repoID,
      StrV (entry_Name (Entry entry)),
      StrV (entry_Hash (Entry entry)),
      StrV (TreeHash entry),
      StrV (FormatInt8 (entry_Mode (Entry entry)))]"

subsection \<open>treeEntryIter: all the trees of a repository\<close>

text \<open>The iterator \<open>new(treeEntryIter)\<close> has no tree iterator yet (\<open>i\<close> is nil);
  \<open>NewIterator\<close> makes the one that is read.\<close>

record treeEntryIter =
  tei_i :: "(error + Tree) list option"
  tei_tree :: "Tree option"
  tei_cursor :: nat
  tei_repoID :: string

definition new_treeEntryIter :: treeEntryIter where
  "new_treeEntryIter = \<lparr>tei_i = None, tei_tree = None, tei_cursor = 0, tei_repoID = []\<rparr>"

definition treeEntryIter_NewIterator :: "treeEntryIter \<Rightarrow> Repository \<Rightarrow> error + treeEntryIter" where
  "treeEntryIter_NewIterator i repo =
     (case repo_TreeObjects repo of
        Inl err \<Rightarrow> Inl err
      | Inr iter \<Rightarrow>
          Inr \<lparr>tei_i = Some iter, tei_tree = None, tei_cursor = 0, tei_repoID = repo_ID repo\<rparr>)"

text \<open>The part of \<open>Next\<close> after \<open>i.tree\<close> is set, on the tree \<open>t\<close> it holds:
  \<open>None\<close> is the \<open>continue\<close> of an exhausted tree.\<close>

definition treeEntryIter_entry ::
  "treeEntryIter \<Rightarrow> Tree \<Rightarrow> ((error + Row) \<times> treeEntryIter) option" where
  "treeEntryIter_entry i t =
     (if tei_cursor i \<ge> length (Entries t) then None
      else Some
        (Inr (treeEntryToRow (tei_repoID i)
                \<lparr>TreeHash = tree_Hash t, Entry = Entries t ! tei_cursor i\<rparr>),
         i\<lparr>tei_cursor := tei_cursor i + 1\<rparr>))"

function treeEntryIter_Next :: "treeEntryIter \<Rightarrow> ((error + Row) \<times> treeEntryIter) outcome" where
  "treeEntryIter_Next i =
     (case tei_tree i of
        None \<Rightarrow>
          (case tei_i i of
             None \<Rightarrow> Panicked ''nil pointer dereference''
           | Some [] \<Rightarrow> Returned (Inl EOF, i)
           | Some (Inl err # rest) \<Rightarrow> Returned (Inl err, i\<lparr>tei_i := Some rest\<rparr>)
           | Some (Inr t # rest) \<Rightarrow>
               (case treeEntryIter_entry
                       (i\<lparr>tei_i := Some rest, tei_tree := Some t, tei_cursor := 0\<rparr>) t of
                  None \<Rightarrow>
                    treeEntryIter_Next
                      (i\<lparr>tei_i := Some rest, tei_tree := None, tei_cursor := 0\<rparr>)
                | Some r \<Rightarrow> Returned r))
      | Some t \<Rightarrow>
          (case treeEntryIter_entry i t of
             None \<Rightarrow> treeEntryIter_Next (i\<lparr>tei_tree := None\<rparr>)
           | Some r \<Rightarrow> Returned r))"
  by pat_completeness auto
termination
  by (relation "measure (\<lambda>i. 2 * (case tei_i i of None \<Rightarrow> 0 | Some l \<Rightarrow> length l) +
                          (case tei_tree i of None \<Rightarrow> 0 | Some t \<Rightarrow> 1))") auto

text \<open>What one result of the tree iterator contributes to the results of the iterator of
  all trees: the rows of the tree's entries, or the error.\<close>

definition rows_of_result :: "string \<Rightarrow> error + Tree \<Rightarrow> (error + Row) list" where
  "rows_of_result repoID x =
     (case x of
        Inl err \<Rightarrow> [Inl err]
      | Inr t \<Rightarrow>
          map (\<lambda>e. Inr (treeEntryToRow repoID \<lparr>TreeHash = tree_Hash t, Entry = e\<rparr>))
            (Entries t))"

text \<open>What the iterator of all trees has still to return: the rest of the tree it holds,
  then what the tree iterator has still to yield.\<close>

definition tei_pending :: "treeEntryIter \<Rightarrow> (error + Row) list" where
  "tei_pending i =
     (case tei_tree i of
        None \<Rightarrow> []
      | Some t \<Rightarrow> drop (tei_cursor i) (rows_of_result (tei_repoID i) (Inr t))) @
     concat (map (rows_of_result (tei_repoID i))
               (case tei_i i of None \<Rightarrow> [] | Some iter \<Rightarrow> iter))"

subsection \<open>treeEntriesByHashIter: the trees of the requested hashes\<close>

record treeEntriesByHashIter =
  bh_hashes :: "string list"
  bh_pos :: nat
  bh_tree :: "Tree option"
  bh_cursor :: nat
  bh_repo :: "Repository option"

definition treeEntriesByHashIter_NewIterator ::
  "treeEntriesByHashIter \<Rightarrow> Repository \<Rightarrow> error + treeEntriesByHashIter" where
  "treeEntriesByHashIter_NewIterator i repo =
     Inr \<lparr>bh_hashes = bh_hashes i, bh_pos = 0, bh_tree = None, bh_cursor = 0, bh_repo = Some repo\<rparr>"

text \<open>The part of \<open>Next\<close> after the lookup, on the tree \<open>t\<close> that \<open>i.tree\<close> holds:
  \<open>None\<close> is the \<open>continue\<close> of an exhausted tree.\<close>

definition treeEntriesByHashIter_entry ::
  "treeEntriesByHashIter \<Rightarrow> Tree \<Rightarrow> ((error + Row) \<times> treeEntriesByHashIter) outcome option" where
  "treeEntriesByHashIter_entry i t =
     (if bh_cursor i \<ge> length (Entries t) then None
      else Some
        (case bh_repo i of
           None \<Rightarrow> Panicked ''nil pointer dereference''
         | Some repo \<Rightarrow>
             Returned
               (Inr (treeEntryToRow (repo_ID repo)
                       \<lparr>TreeHash = tree_Hash t, Entry = Entries t ! bh_cursor i\<rparr>),
                i\<lparr>bh_cursor := bh_cursor i + 1\<rparr>)))"

function treeEntriesByHashIter_Next ::
  "(string \<Rightarrow> Hash) \<Rightarrow> treeEntriesByHashIter \<Rightarrow> ((error + Row) \<times> treeEntriesByHashIter) outcome" where
  "treeEntriesByHashIter_Next NewHash i =
     (if bh_pos i \<ge> length (bh_hashes i) \<and> bh_tree i = None then Returned (Inl EOF, i)
      else
        (case bh_tree i of
           None \<Rightarrow>
             (case bh_repo i of
                None \<Rightarrow> Panicked ''nil pointer dereference''
              | Some repo \<Rightarrow>
                  (case repo_TreeObject repo (NewHash (bh_hashes i ! bh_pos i)) of
                     Inl err \<Rightarrow>
                       (if err = ErrObjectNotFound
                        then treeEntriesByHashIter_Next NewHash (i\<lparr>bh_pos := bh_pos i + 1\<rparr>)
                        else Returned (Inl err, i\<lparr>bh_pos := bh_pos i + 1\<rparr>))
                   | Inr t \<Rightarrow>
                       (case treeEntriesByHashIter_entry
                               (i\<lparr>bh_pos := bh_pos i + 1, bh_tree := Some t, bh_cursor := 0\<rparr>) t of
                          None \<Rightarrow>
                            treeEntriesByHashIter_Next NewHash
                              (i\<lparr>bh_pos := bh_pos i + 1, bh_tree := None, bh_cursor := 0\<rparr>)
                        | Some r \<Rightarrow> r)))
         | Some t \<Rightarrow>
             (case treeEntriesByHashIter_entry i t of
                None \<Rightarrow> treeEntriesByHashIter_Next NewHash (i\<lparr>bh_tree := None\<rparr>)
              | Some r \<Rightarrow> r)))"
  by pat_completeness auto
termination
  by (relation "measure (\<lambda>(NewHash, i). 2 * (length (bh_hashes i) - bh_pos i) +
                          (case bh_tree i of None \<Rightarrow> 0 | Some t \<Rightarrow> 1))") auto

text \<open>The results of the first \<open>n\<close> calls of \<open>Next\<close>.\<close>

fun treeEntriesByHashIter_results ::
  "(string \<Rightarrow> Hash) \<Rightarrow> nat \<Rightarrow> treeEntriesByHashIter \<Rightarrow> (error + Row) list outcome" where
  "treeEntriesByHashIter_results NewHash 0 i = Returned []"
| "treeEntriesByHashIter_results NewHash (Suc n) i =
     (case treeEntriesByHashIter_Next NewHash i of
        Panicked msg \<Rightarrow> Panicked msg
      | Returned (r, i') \<Rightarrow>
          (case treeEntriesByHashIter_results NewHash n i' of
             Panicked msg \<Rightarrow> Panicked msg
           | Returned rs \<Rightarrow> Returned (r # rs)))"

subsection \<open>treeEntriesIterBuilder\<close>

text \<open>
  The selectors of a table map a column name to the values the pushed filters ask of it
  (a key that is absent has none). The method \<open>textValues\<close> is declared outside the
  sources and is a parameter.
\<close>

type_synonym selectors = "string \<Rightarrow> Value list list"

datatype RowRepoIter =
    TreeEntryIter treeEntryIter
  | TreeEntriesByHashIter treeEntriesByHashIter

definition treeEntriesIterBuilder ::
  "(selectors \<Rightarrow> string \<Rightarrow> error + string list) \<Rightarrow> selectors \<Rightarrow> error + RowRepoIter" where
  "treeEntriesIterBuilder textValues sel =
     (if length (sel ''tree_hash'') = 0 then Inr (TreeEntryIter new_treeEntryIter)
      else
        (case textValues sel ''tree_hash'' of
           Inl err \<Rightarrow> Inl err
         | Inr hashes \<Rightarrow>
             Inr (TreeEntriesByHashIter
                    \<lparr>bh_hashes = hashes, bh_pos = 0, bh_tree = None, bh_cursor = 0,
                     bh_repo = None\<rparr>)))"

text \<open>What the lookup of one requested hash contributes to the results of the iterator:
  the rows of the tree's entries, nothing when the tree is not found, the error of a
  failed lookup.\<close>

definition rows_of_hash :: "(string \<Rightarrow> Hash) \<Rightarrow> Repository \<Rightarrow> string \<Rightarrow> (error + Row) list" where
  "rows_of_hash NewHash repo h =
     (case repo_TreeObject repo (NewHash h) of
        Inl err \<Rightarrow> (if err = ErrObjectNotFound then [] else [Inl err])
      | Inr t \<Rightarrow>
          map (\<lambda>e. Inr (treeEntryToRow (repo_ID repo) \<lparr>TreeHash = tree_Hash t, Entry = e\<rparr>))
            (Entries t))"

text \<open>What the iterator \<open>i\<close> on the repository has still to return: the rest of
  the tree it holds, then what the hashes not yet looked up contribute.\<close>

definition bh_pending :: "(string \<Rightarrow> Hash) \<Rightarrow> Repository \<Rightarrow> treeEntriesByHashIter \<Rightarrow> (error + Row) list" where
  "bh_pending NewHash repo i =
     (case bh_tree i of
        None \<Rightarrow> []
      | Some t \<Rightarrow>
          map (\<lambda>e. Inr (treeEntryToRow (repo_ID repo) \<lparr>TreeHash = tree_Hash t, Entry = e\<rparr>))
            (drop (bh_cursor i) (Entries t))) @
     concat (map (rows_of_hash NewHash repo) (drop (bh_pos i) (bh_hashes i)))"

text \<open>What the requested hashes contribute, in the order of the request.\<close>

definition requested_rows :: "(string \<Rightarrow> Hash) \<Rightarrow> Repository \<Rightarrow> string list \<Rightarrow> (error + Row) list" where
  "requested_rows NewHash repo hashes = concat (map (rows_of_hash NewHash repo) hashes)"

subsection \<open>treeEntriesKeyValueIter\<close>

text \<open>An \<open>encodedObject\<close> as the object iterator of the index yields it; the iterator
  itself (declared outside the sources) is the sequence of the results of its \<open>Next\<close>.\<close>

record encodedObject =
  RepositoryID :: string
  Packfile :: Hash
  Offset :: nat
  Object :: Object

record treeEntriesIndexKey =
  key_Repository :: string
  key_Packfile :: string
  key_Offset :: int
  key_Pos :: nat

record treeEntriesKeyValueIter =
  kv_iter :: "(error + encodedObject) list"
  kv_obj :: "encodedObject option"
  kv_tree :: "Tree option"
  kv_pos :: nat
  kv_columns :: "string list"

text \<open>The conversion \<open>int64(i.obj.Offset)\<close> of an unsigned 64-bit offset.\<close>

definition int64_of_uint64 :: "nat \<Rightarrow> int" where
  "int64_of_uint64 n =
     (let m = int n mod 2 ^ 64 in if m < 2 ^ 63 then m else m - 2 ^ 64)"

text \<open>
  The block of \<open>Next\<close> under \<open>if i.tree == nil\<close>: \<open>Inl\<close> is its \<open>return\<close> of an
  error, \<open>Inr\<close> the iterator with which \<open>Next\<close> goes on. For an object that is not a
  tree the type assertion leaves \<open>i.tree\<close> nil and \<open>ok\<close> false; the error that
  \<open>ErrInvalidObjectType.New\<close> then builds is not returned or stored, so nothing of it is
  left in the state.
\<close>

definition treeEntriesKeyValueIter_fetch ::
  "treeEntriesKeyValueIter \<Rightarrow> (error \<times> treeEntriesKeyValueIter) + treeEntriesKeyValueIter" where
  "treeEntriesKeyValueIter_fetch i =
     (case kv_iter i of
        [] \<Rightarrow> Inl (EOF, i\<lparr>kv_obj := None\<rparr>)
      | Inl err # rest \<Rightarrow> Inl (err, i\<lparr>kv_iter := rest, kv_obj := None\<rparr>)
      | Inr ob # rest \<Rightarrow>
          Inr (i\<lparr>kv_iter := rest, kv_obj := Some ob,
                 kv_tree := (case Object ob of ObjTree t \<Rightarrow> Some t | _ \<Rightarrow> None),
                 kv_pos := 0\<rparr>))"

text \<open>The rest of \<open>Next\<close>, from \<open>i.pos >= len(i.tree.Entries)\<close> on; reading the
  entries of a nil tree panics. \<open>None\<close> is the \<open>continue\<close> of an exhausted tree. The
  functions \<open>encodeIndexKey\<close> and \<open>rowIndexValues\<close> are parameters.\<close>

definition treeEntriesKeyValueIter_entry ::
  "(treeEntriesIndexKey \<Rightarrow> error + string) \<Rightarrow> (Row \<Rightarrow> string list \<Rightarrow> Schema \<Rightarrow> error + Value list) \<Rightarrow>
   treeEntriesKeyValueIter \<Rightarrow>
   ((error + Value list \<times> string) \<times> treeEntriesKeyValueIter) outcome option" where
  "treeEntriesKeyValueIter_entry encodeIndexKey rowIndexValues i =
     (case kv_tree i of
        None \<Rightarrow> Some (Panicked ''nil pointer dereference'')
      | Some t \<Rightarrow>
          (if kv_pos i \<ge> length (Entries t) then None
           else Some
             (let entry = Entries t ! kv_pos i; i' = i\<lparr>kv_pos := kv_pos i + 1\<rparr> in
              case kv_obj i of
                None \<Rightarrow> Panicked ''nil pointer dereference''
              | Some ob \<Rightarrow>
                  (case encodeIndexKey
                          \<lparr>key_Repository = RepositoryID ob, key_Packfile = Packfile ob,
                           key_Offset = int64_of_uint64 (Offset ob), key_Pos = kv_pos i' - 1\<rparr> of
                     Inl err \<Rightarrow> Returned (Inl err, i')
                   | Inr key \<Rightarrow>
                       (case rowIndexValues
                               (treeEntryToRow (RepositoryID ob)
                                  \<lparr>TreeHash = tree_Hash t, Entry = entry\<rparr>)
                               (kv_columns i) TreeEntriesSchema of
                          Inl err \<Rightarrow> Returned (Inl err, i')
                        | Inr values \<Rightarrow> Returned (Inr (values, key), i'))))))"

function treeEntriesKeyValueIter_Next ::
  "(treeEntriesIndexKey \<Rightarrow> error + string) \<Rightarrow> (Row \<Rightarrow> string list \<Rightarrow> Schema \<Rightarrow> error + Value list) \<Rightarrow>
   treeEntriesKeyValueIter \<Rightarrow> ((error + Value list \<times> string) \<times> treeEntriesKeyValueIter) outcome" where
  "treeEntriesKeyValueIter_Next encodeIndexKey rowIndexValues i =
     (case kv_tree i of
        None \<Rightarrow>
          (case treeEntriesKeyValueIter_fetch i of
             Inl (err, i') \<Rightarrow> Returned (Inl err, i')
           | Inr i' \<Rightarrow>
               (case treeEntriesKeyValueIter_entry encodeIndexKey rowIndexValues i' of
                  None \<Rightarrow>
                    treeEntriesKeyValueIter_Next encodeIndexKey rowIndexValues
                      (i'\<lparr>kv_tree := None\<rparr>)
                | Some r \<Rightarrow> r))
      | Some t \<Rightarrow>
          (case treeEntriesKeyValueIter_entry encodeIndexKey rowIndexValues i of
             None \<Rightarrow>
               treeEntriesKeyValueIter_Next encodeIndexKey rowIndexValues (i\<lparr>kv_tree := None\<rparr>)
           | Some r \<Rightarrow> r))"
  by pat_completeness auto
termination
  by (relation "measure (\<lambda>(e, r, i). 2 * length (kv_iter i) +
                          (case kv_tree i of None \<Rightarrow> 0 | Some t \<Rightarrow> 1))")
     (auto simp: treeEntriesKeyValueIter_fetch_def split: list.splits sum.splits)

subsection \<open>A repository, a request and an index iterator for the examples\<close>

definition example_tree :: Tree where
  "example_tree =
     \<lparr>tree_Hash = ''aaaaaaaaaaaaaaaaaaaaaaaaaaaaaaaaaaaaaaaa'',
      Entries = [\<lparr>entry_Name = ''LICENSE'', entry_Mode = 33188,
                  entry_Hash = ''bbbbbbbbbbbbbbbbbbbbbbbbbbbbbbbbbbbbbbbb''\<rparr>,
                 \<lparr>entry_Name = ''src'', entry_Mode = 16384,
                  entry_Hash = ''cccccccccccccccccccccccccccccccccccccccc''\<rparr>]\<rparr>"

definition example_repo :: Repository where
  "example_repo =
     \<lparr>repo_ID = ''repo'',
      repo_TreeObject =
        (\<lambda>h. if h = ''aaaaaaaaaaaaaaaaaaaaaaaaaaaaaaaaaaaaaaaa'' then Inr example_tree
              else Inl ErrObjectNotFound),
      repo_TreeObjects = Inr [Inr example_tree]\<rparr>"

text \<open>A request for the hash of the example tree and for a hash that the repository does
  not have, and a request for the hash of the example tree written in upper case.\<close>

definition example_selectors :: selectors where
  "example_selectors c =
     (if c = ''tree_hash''
      then [[StrV ''aaaaaaaaaaaaaaaaaaaaaaaaaaaaaaaaaaaaaaaa'', StrV ''0000000000000000000000000000000000000000'']]
      else [])"

definition example_selectors_upper :: selectors where
  "example_selectors_upper c =
     (if c = ''tree_hash'' then [[StrV ''AAAAAAAAAAAAAAAAAAAAAAAAAAAAAAAAAAAAAAAA'']] else [])"

text \<open>
  An instance of \<open>plumbing.NewHash\<close> for the examples. go-git decodes the hexadecimal
  text of a hash in either case and \<open>Hash.String\<close> writes it in lower case, so that at a
  text of 40 hexadecimal digits the hash, written as text, is the text in lower case. The
  examples ask for such texts only.
\<close>

definition hex_lower :: "char \<Rightarrow> char" where
  "hex_lower c =
     (if c = CHR ''A'' then CHR ''a'' else if c = CHR ''B'' then CHR ''b''
      else if c = CHR ''C'' then CHR ''c'' else if c = CHR ''D'' then CHR ''d''
      else if c = CHR ''E'' then CHR ''e'' else if c = CHR ''F'' then CHR ''f'' else c)"

definition example_NewHash :: "string \<Rightarrow> Hash" where
  "example_NewHash h = map hex_lower h"

definition example_textValues :: "selectors \<Rightarrow> string \<Rightarrow> error + string list" where
  "example_textValues sel c =
     (if list_all (\<lambda>v. case v of StrV s \<Rightarrow> True | _ \<Rightarrow> False) (concat (sel c))
      then Inr (map (\<lambda>v. case v of StrV s \<Rightarrow> s | _ \<Rightarrow> []) (concat (sel c)))
      else Inl (Failure ''selector is not text''))"

definition example_keyValueIter :: treeEntriesKeyValueIter where
  "example_keyValueIter =
     \<lparr>kv_iter = [Inr \<lparr>RepositoryID = ''repo'', Packfile = ''pp'', Offset = 12, Object = ObjBlob\<rparr>],
      kv_obj = None, kv_tree = None, kv_pos = 0, kv_columns = [''tree_hash'']\<rparr>"

section \<open>Directory options of the server command (parseDirectory)\<close>

record directory =
  Path :: string
  Format :: string
  Bucket :: int
  Rooted :: bool
  Bare :: bool

text \<open>Of a parsed \<open>url.URL\<close>: its scheme, \<open>Hostname()\<close>, path, and the entries of the
  map \<open>Query()\<close> in the order in which the \<open>range\<close> loop visits them.\<close>

record URL =
  url_Scheme :: string
  url_Hostname :: string
  url_Path :: string
  url_Query :: "(string \<times> string list) list"

text \<open>The functions of Go's library that \<open>parseDirectory\<close> calls are parameters.\<close>

record go_library =
  url_ParseRequestURI :: "string \<Rightarrow> error + URL"
  strings_ToLower :: "string \<Rightarrow> string"
  strconv_Atoi :: "string \<Rightarrow> error + int"
  filepath_Join :: "string \<Rightarrow> string \<Rightarrow> string"

text \<open>The regular expression \<open>uriReg\<close> is \<open>^\w+:.*\<close>: one or more of the characters
  \<open>0-9A-Za-z_\<close> from the start, then a colon, then anything.\<close>

definition is_word_char :: "char \<Rightarrow> bool" where
  "is_word_char c \<longleftrightarrow>
     c \<in> set ''0123456789ABCDEFGHIJKLMNOPQRSTUVWXYZabcdefghijklmnopqrstuvwxyz_''"

definition uriReg_Match :: "string \<Rightarrow> bool" where
  "uriReg_Match d =
     (case dropWhile is_word_char d of
        [] \<Rightarrow> False
      | c # rest \<Rightarrow> c = CHR '':'' \<and> takeWhile is_word_char d \<noteq> [])"

text \<open>The loop of \<open>parseDirectory\<close> over the query: the directory as updated so far
  and the error, if any.\<close>

fun parseDirectory_loop ::
  "go_library \<Rightarrow> (string \<times> string list) list \<Rightarrow> directory \<Rightarrow> directory \<times> error option" where
  "parseDirectory_loop lib [] dir = (dir, None)"
| "parseDirectory_loop lib ((k, v) # query) dir =
     (if length v \<noteq> 1 then (dir, Some ErrInvalid)
      else
        (let val = v ! 0; key = strings_ToLower lib k in
         if key = ''format'' then
           (if val \<noteq> ''siva'' \<and> val \<noteq> ''git'' then (dir, Some ErrInvalid)
            else parseDirectory_loop lib query (dir\<lparr>Format := val\<rparr>))
         else if key = ''bare'' then
           (if val \<noteq> ''true'' \<and> val \<noteq> ''false'' then (dir, Some ErrInvalid)
            else parseDirectory_loop lib query (dir\<lparr>Bare := (val = ''true'')\<rparr>))
         else if key = ''rooted'' then
           (if val \<noteq> ''true'' \<and> val \<noteq> ''false'' then (dir, Some ErrInvalid)
            else parseDirectory_loop lib query (dir\<lparr>Rooted := (val = ''true'')\<rparr>))
         else if key = ''bucket'' then
           (case strconv_Atoi lib val of
              Inl err \<Rightarrow> (dir, Some ErrInvalid)
            | Inr num \<Rightarrow> parseDirectory_loop lib query (dir\<lparr>Bucket := num\<rparr>))
         else (dir, Some ErrInvalid)))"

definition parseDirectory :: "go_library \<Rightarrow> directory \<Rightarrow> directory \<times> error option" where
  "parseDirectory lib dir =
     (let d = Path dir in
      if \<not> uriReg_Match d then (dir, None)
      else
        (case url_ParseRequestURI lib d of
           Inl err \<Rightarrow> (dir, Some err)
         | Inr u \<Rightarrow>
             (if url_Scheme u \<noteq> ''file'' then (dir, Some (ErrSchemeNotSupported d))
              else parseDirectory_loop lib (url_Query u)
                     (dir\<lparr>Path := filepath_Join lib (url_Hostname u) (url_Path u)\<rparr>))))"

text \<open>An entry of the query that the loop accepts: one value, and a key that, in lower
  case, is one of the four options with a value of its kind.\<close>

definition valid_option :: "go_library \<Rightarrow> string \<times> string list \<Rightarrow> bool" where
  "valid_option lib kv =
     (case kv of (k, v) \<Rightarrow>
        length v = 1 \<and>
        (let val = v ! 0; key = strings_ToLower lib k in
           (key = ''format'' \<and> (val = ''siva'' \<or> val = ''git'')) \<or>
           (key = ''bare'' \<and> (val = ''true'' \<or> val = ''false'')) \<or>
           (key = ''rooted'' \<and> (val = ''true'' \<or> val = ''false'')) \<or>
           (key = ''bucket'' \<and> (case strconv_Atoi lib val of Inl err \<Rightarrow> False | Inr num \<Rightarrow> True))))"

text \<open>The library functions at the arguments of the examples.\<close>

definition example_library :: go_library where
  "example_library =
     \<lparr>url_ParseRequestURI =
        (\<lambda>s. if s = ''http://host/repos''
              then Inr \<lparr>url_Scheme = ''http'', url_Hostname = ''host'', url_Path = ''/repos'',
                        url_Query = []\<rparr>
              else if s = ''file://host/repos?Format=siva&bucket=4''
              then Inr \<lparr>url_Scheme = ''file'', url_Hostname = ''host'', url_Path = ''/repos'',
                        url_Query = [(''Format'', [''siva'']), (''bucket'', [''4''])]\<rparr>
              else if s = ''file://host/repos?depth=1''
              then Inr \<lparr>url_Scheme = ''file'', url_Hostname = ''host'', url_Path = ''/repos'',
                        url_Query = [(''depth'', [''1''])]\<rparr>
              else if s = ''file://host/%zz''
              then Inl (Failure ''invalid URL escape'')
              else Inl (Failure ''not among the examples'')),
      strings_ToLower = (\<lambda>s. if s = ''Format'' then ''format'' else s),
      strconv_Atoi = (\<lambda>s. if s = ''4'' then Inr 4 else Inl (Failure ''invalid syntax'')),
      filepath_Join = (\<lambda>a b. if b = ''/repos'' then a @ b else a @ ''/'' @ b)\<rparr>"

definition example_directory :: "string \<Rightarrow> directory" where
  "example_directory d = \<lparr>Path = d, Format = ''git'', Bucket = 2, Rooted = True, Bare = False\<rparr>"

section \<open>The bblfsh client of a session (Session.BblfshClient)\<close>














section \<open>Properties\<close>

subsection \<open>The schema of tree\_entries\<close>

text \<open>
  C3, as the claim states it: the columns of \<open>tree_entries\<close> are, in order,
  repository\_id, tree\_hash, tree\_entry\_name, blob\_hash, tree\_entry\_mode. The
  declared schema has another order, so the claimed list of names is not the schema's.
\<close>

theorem TreeEntriesSchema_claimed_order_fails:
  "map Name TreeEntriesSchema \<noteq>
     [''repository_id'', ''tree_hash'', ''tree_entry_name'', ''blob_hash'', ''tree_entry_mode'']"
  by (simp add: TreeEntriesSchema_def)

text \<open>
  C3, amended: the schema of \<open>tree_entries\<close> consists, in order, of the columns
  repository\_id, tree\_entry\_name, blob\_hash, tree\_hash, tree\_entry\_mode, all of
  text type.
\<close>

theorem TreeEntriesSchema_columns:
  "map Name TreeEntriesSchema =
     [''repository_id'', ''tree_entry_name'', ''blob_hash'', ''tree_hash'', ''tree_entry_mode''] \<and>
   map Type TreeEntriesSchema = [Text, Text, Text, Text, Text]"
  by (simp add: TreeEntriesSchema_def)

subsection \<open>NewSort\<close>

lemma findField_None: "findField schema c idx = None \<longleftrightarrow> c \<notin> Name ` set schema"
  by (induction schema arbitrary: idx) auto

lemma findField_Some:
  "findField schema c idx = Some (j, t) \<Longrightarrow>
     idx \<le> j \<and> first_match schema c (j - idx) \<and> t = Type (schema ! (j - idx))"
proof (induction schema arbitrary: idx)
  case Nil
  then show ?case by simp
next
  case (Cons field rest)
  show ?case
  proof (cases "Name field = c")
    case True
    with Cons.prems show ?thesis by (simp add: first_match_def)
  next
    case False
    with Cons.prems have r: "findField rest c (Suc idx) = Some (j, t)" by simp
    from Cons.IH [OF r] have le: "Suc idx \<le> j" and fm: "first_match rest c (j - Suc idx)"
      and ty: "t = Type (rest ! (j - Suc idx))" by simp_all
    from le have eq: "j - idx = Suc (j - Suc idx)" by simp
    have "first_match (field # rest) c (Suc (j - Suc idx))"
      using fm False by (auto simp: first_match_def nth_Cons split: nat.splits)
    with le ty eq show ?thesis by simp
  qed
qed

lemma NewSort_loop_Returned:
  "\<forall>sf \<in> set sfs. Column sf \<in> Name ` set schema \<Longrightarrow>
   \<exists>ixs ts. NewSort_loop sfs schema indexes types = Returned (indexes @ ixs, types @ ts) \<and>
     length ixs = length sfs \<and> length ts = length sfs \<and>
     (\<forall>k < length sfs. first_match schema (Column (sfs ! k)) (ixs ! k) \<and>
        ts ! k = Type (schema ! (ixs ! k)))"
proof (induction sfs arbitrary: indexes types)
  case Nil
  then show ?case by simp
next
  case (Cons sf rest)
  from Cons.prems have "findField schema (Column sf) 0 \<noteq> None"
    by (simp add: findField_None)
  then obtain j t where f: "findField schema (Column sf) 0 = Some (j, t)" by auto
  from findField_Some [OF f] have fm: "first_match schema (Column sf) j"
    and ty: "t = Type (schema ! j)" by simp_all
  from Cons.prems have "\<forall>sf \<in> set rest. Column sf \<in> Name ` set schema" by simp
  from Cons.IH [OF this, of "indexes @ [j]" "types @ [t]"]
  obtain ixs ts where
    r: "NewSort_loop rest schema (indexes @ [j]) (types @ [t]) =
          Returned ((indexes @ [j]) @ ixs, (types @ [t]) @ ts)"
    and l: "length ixs = length rest" "length ts = length rest"
    and a: "\<forall>k < length rest. first_match schema (Column (rest ! k)) (ixs ! k) \<and>
        ts ! k = Type (schema ! (ixs ! k))" by blast
  have "NewSort_loop (sf # rest) schema indexes types = Returned (indexes @ (j # ixs), types @ (t # ts))"
    using f r by simp
  moreover have "\<forall>k < length (sf # rest). first_match schema (Column ((sf # rest) ! k)) ((j # ixs) ! k) \<and>
        (t # ts) ! k = Type (schema ! ((j # ixs) ! k))"
    using fm ty a by (auto simp: nth_Cons split: nat.splits)
  ultimately show ?case using l by (intro exI [of _ "j # ixs"] exI [of _ "t # ts"]) simp
qed

lemma NewSort_loop_Panicked:
  "\<exists>sf \<in> set sfs. Column sf \<notin> Name ` set schema \<Longrightarrow>
   \<exists>sf \<in> set sfs. Column sf \<notin> Name ` set schema \<and>
     NewSort_loop sfs schema indexes types =
       Panicked (''Field '' @ Column sf @ '' not found in child'')"
proof (induction sfs arbitrary: indexes types)
  case Nil
  then show ?case by simp
next
  case (Cons sf rest)
  show ?case
  proof (cases "findField schema (Column sf) 0")
    case None
    then have "Column sf \<notin> Name ` set schema" by (simp add: findField_None)
    with None show ?thesis by simp
  next
    case (Some p)
    obtain j t where p: "p = (j, t)" by (cases p)
    from Some have "Column sf \<in> Name ` set schema"
      using findField_None [of schema "Column sf" 0] by auto
    with Cons.prems have "\<exists>sf \<in> set rest. Column sf \<notin> Name ` set schema" by auto
    from Cons.IH [OF this, of "indexes @ [j]" "types @ [t]"] Some p show ?thesis by auto
  qed
qed

text \<open>
  C9: \<open>NewSort\<close> panics (it has no error result) whenever some sort column does not
  occur by name in the child's schema, with the message naming such a column; when every
  sort column occurs, the Sort it returns records, for each sort field, the index of the
  first schema column of that name and that column's type.
\<close>

theorem NewSort_panics_or_first_match:
  "(if \<forall>sf \<in> set sfs. Column sf \<in> Name ` set (node_Schema child)
    then \<exists>s. NewSort sfs child = Returned s \<and> sortFields s = sfs \<and> Child s = child \<and>
           length (fieldIndexes s) = length sfs \<and> length (fieldTypes s) = length sfs \<and>
           (\<forall>k < length sfs.
              first_match (node_Schema child) (Column (sfs ! k)) (fieldIndexes s ! k) \<and>
              fieldTypes s ! k = Type (node_Schema child ! (fieldIndexes s ! k)))
    else \<exists>sf \<in> set sfs. Column sf \<notin> Name ` set (node_Schema child) \<and>
           NewSort sfs child = Panicked (''Field '' @ Column sf @ '' not found in child''))"
proof (cases "\<forall>sf \<in> set sfs. Column sf \<in> Name ` set (node_Schema child)")
  case True
  from NewSort_loop_Returned [OF True, of "[]" "[]"] True show ?thesis
    by (auto simp: NewSort_def)
next
  case False
  then have "\<exists>sf \<in> set sfs. Column sf \<notin> Name ` set (node_Schema child)" by simp
  from NewSort_loop_Panicked [OF this, of "[]" "[]"] False show ?thesis
    by (auto simp: NewSort_def)
qed

theorem NewSort_panics_or_first_match_witness:
  "(\<exists>s. NewSort [\<lparr>Column = ''b'', Order = Descending\<rparr>] example_child = Returned s \<and>
        fieldIndexes s = [1] \<and> fieldTypes s = [String]) \<and>
   NewSort [\<lparr>Column = ''c'', Order = Ascending\<rparr>] example_child =
     Panicked ''Field c not found in child''"
  using NewSort_panics_or_first_match [of "[\<lparr>Column = ''b'', Order = Descending\<rparr>]" example_child]
    NewSort_panics_or_first_match [of "[\<lparr>Column = ''c'', Order = Ascending\<rparr>]" example_child]
  by (simp add: example_child_def example_schema_def NewSort_def)

subsection \<open>Sort: the order of a sort field\<close>

text \<open>The indexes and types a Sort records, all that its sorter is given, do not depend
  on the order of its sort fields.\<close>

lemma NewSort_loop_map_Order:
  "NewSort_loop (map (\<lambda>sf. sf\<lparr>Order := ord\<rparr>) sfs) schema indexes types =
   NewSort_loop sfs schema indexes types"
  by (induction sfs arbitrary: indexes types) (auto split: option.splits)

lemma NewSort_ignores_Order:
  "NewSort sfs child = Returned sn \<Longrightarrow>
   NewSort (map (\<lambda>sf. sf\<lparr>Order := ord\<rparr>) sfs) child =
     Returned (sn\<lparr>sortFields := map (\<lambda>sf. sf\<lparr>Order := ord\<rparr>) sfs\<rparr>)"
  by (auto simp: NewSort_def NewSort_loop_map_Order split: outcome.splits prod.splits)

text \<open>
  C5 says that a Sort whose field is declared \<open>Descending\<close> puts its rows in
  descending order on that field. The code does not: \<open>sorter.Less\<close> never reads
  the order. Here the Sort that \<open>NewSort\<close> builds for column a, descending, on a child
  that yields the rows 2, 3, 1, materialises them as 1, 2, 3; already its \<open>Less\<close> puts
  the row 2 before the row 3, whatever \<open>sort.Sort\<close> then does.
\<close>

theorem Sort_Descending_sorts_ascending:
  "NewSort [\<lparr>Column = ''a'', Order = Descending\<rparr>] example_child = Returned example_Sort \<and>
   Less example_Compare
       \<lparr>sorter_indexes = fieldIndexes example_Sort, sorter_types = fieldTypes example_Sort,
        sorter_rows = [[IntV 2], [IntV 3]]\<rparr> 0 1 = Returned True \<and>
   computeSortedRows insertionSort example_Compare
       (newSortIter example_Sort [Inr [IntV 2], Inr [IntV 3], Inr [IntV 1]]) =
     Returned (None, \<lparr>sortIter_s = example_Sort, childIter = [],
                      sortedRows = [[IntV 1], [IntV 2], [IntV 3]], sortIter_idx = - 1\<rparr>)"
  by (simp add: NewSort_def example_child_def example_schema_def example_Sort_def
      computeSortedRows_def newSortIter_def insertionSort_def Less_def example_Compare_def
      upt_rec)

subsection \<open>Sort: calls of Next after a terminal result\<close>

lemma computeSortedRows_loop_not_EOF:
  "computeSortedRows_loop child rs = (Inl err, child') \<Longrightarrow> err \<noteq> EOF"
  by (induction child rs rule: computeSortedRows_loop.induct) (auto split: if_splits)

lemma Next_emit_EOF:
  "Next_emit i = Returned (Inl EOF, i') \<Longrightarrow>
   i' = i \<and> int (length (sortedRows i)) \<le> sortIter_idx i"
  by (auto simp: Next_emit_def split: if_splits)

lemma Next_EOF_started:
  assumes "Next sort_Sort Compare i = Returned (Inl EOF, i')"
  shows "sortIter_idx i' \<noteq> - 1 \<and> Next_emit i' = Returned (Inl EOF, i')"
proof (cases "sortIter_idx i = - 1")
  case False
  with assms have e: "Next_emit i = Returned (Inl EOF, i')" by (simp add: Next_def)
  from Next_emit_EOF [OF e] False e show ?thesis by simp
next
  case True
  show ?thesis
  proof (cases "computeSortedRows sort_Sort Compare i")
    case (Panicked msg)
    with True assms show ?thesis by (simp add: Next_def)
  next
    case (Returned p)
    obtain eo i2 where p: "p = (eo, i2)" by (cases p)
    show ?thesis
    proof (cases eo)
      case (Some err)
      with Returned p True assms have "err = EOF" by (simp add: Next_def)
      moreover from Returned p Some have "err \<noteq> EOF"
        by (auto simp: computeSortedRows_def split: prod.splits sum.splits outcome.splits
            dest: computeSortedRows_loop_not_EOF)
      ultimately show ?thesis by simp
    next
      case None
      with Returned p True assms
      have e: "Next_emit (i2\<lparr>sortIter_idx := 0\<rparr>) = Returned (Inl EOF, i')"
        by (simp add: Next_def)
      from Next_emit_EOF [OF e] e show ?thesis by auto
    qed
  qed
qed

lemma Next_after_EOF:
  "sortIter_idx i \<noteq> - 1 \<Longrightarrow> Next_emit i = Returned (Inl EOF, i) \<Longrightarrow>
   Next_after sort_Sort Compare n i = Returned (Inl EOF, i)"
  by (induction n) (simp_all add: Next_def)

lemma Next_error_unstarted:
  assumes "Next sort_Sort Compare i = Returned (Inl err, i')" and "err \<noteq> EOF"
  shows "sortIter_idx i = - 1 \<and>
         (\<exists>child'. i' = i\<lparr>childIter := child'\<rparr> \<and>
            computeSortedRows_loop (childIter i) [] = (Inl err, child'))"
proof (cases "sortIter_idx i = - 1")
  case False
  with assms show ?thesis by (auto simp: Next_def Next_emit_def split: if_splits)
next
  case True
  with assms show ?thesis
    by (auto simp: Next_def Next_emit_def computeSortedRows_def
        split: if_splits prod.splits sum.splits outcome.splits option.splits)
qed

text \<open>
  C6, as the claim states it: once \<open>Next\<close> has returned an error, every later call
  returns that error. It fails: on a child whose first result is an error and whose second
  is a row, the first \<open>Next\<close> of the Sort iterator returns the error and the second
  returns the row.
\<close>

theorem sortIter_Next_error_not_terminal:
  "Next_after insertionSort example_Compare 0 (newSortIter example_Sort example_failing_child) =
     Returned (Inl (Failure ''boom''), newSortIter example_Sort [Inr [IntV 1]]) \<and>
   Next_after insertionSort example_Compare 1 (newSortIter example_Sort example_failing_child) =
     Returned (Inr [IntV 1], \<lparr>sortIter_s = example_Sort, childIter = [],
                      sortedRows = [[IntV 1]], sortIter_idx = 1\<rparr>)"
  by (simp add: example_failing_child_def Next_def Next_emit_def computeSortedRows_def
      newSortIter_def insertionSort_def)

text \<open>
  C6, amended: after \<open>Next\<close> has returned \<open>io.EOF\<close>, every later call returns
  \<open>io.EOF\<close> and leaves the iterator as it is. After \<open>Next\<close> has returned an
  error, the iterator is still unstarted (\<open>idx\<close> is -1 and only the child has moved, past
  the call that failed), so that the next call materialises the child again: what it returns
  is decided by the child's further results.
\<close>

theorem sortIter_Next_terminal:
  "(Next sort_Sort Compare i = Returned (Inl EOF, i') \<longrightarrow>
      (\<forall>n. Next_after sort_Sort Compare n i' = Returned (Inl EOF, i'))) \<and>
   (Next sort_Sort Compare i = Returned (Inl err, i') \<and> err \<noteq> EOF \<longrightarrow>
      sortIter_idx i = - 1 \<and> sortIter_idx i' = - 1 \<and>
      (\<exists>child'. i' = i\<lparr>childIter := child'\<rparr> \<and>
         computeSortedRows_loop (childIter i) [] = (Inl err, child')))"
proof (intro conjI impI allI)
  fix n
  assume a: "Next sort_Sort Compare i = Returned (Inl EOF, i')"
  from Next_EOF_started [OF a] show "Next_after sort_Sort Compare n i' = Returned (Inl EOF, i')"
    by (simp add: Next_after_EOF)
next
  assume a: "Next sort_Sort Compare i = Returned (Inl err, i') \<and> err \<noteq> EOF"
  then have u: "sortIter_idx i = - 1" and
    "\<exists>child'. i' = i\<lparr>childIter := child'\<rparr> \<and>
       computeSortedRows_loop (childIter i) [] = (Inl err, child')"
    using Next_error_unstarted by blast+
  then obtain child' where c: "i' = i\<lparr>childIter := child'\<rparr>"
    and l: "computeSortedRows_loop (childIter i) [] = (Inl err, child')" by blast
  from u show "sortIter_idx i = - 1" .
  from u c show "sortIter_idx i' = - 1" by simp
  from c l show "\<exists>child'. i' = i\<lparr>childIter := child'\<rparr> \<and>
       computeSortedRows_loop (childIter i) [] = (Inl err, child')" by blast
qed

theorem sortIter_Next_terminal_witness:
  "Next_after insertionSort example_Compare 3 ((newSortIter example_Sort [])\<lparr>sortIter_idx := 0\<rparr>) =
     Returned (Inl EOF, (newSortIter example_Sort [])\<lparr>sortIter_idx := 0\<rparr>) \<and>
   sortIter_idx (newSortIter example_Sort [Inr [IntV 1]]) = - 1 \<and>
   (\<exists>child'. computeSortedRows_loop example_failing_child [] = (Inl (Failure ''boom''), child'))"
proof -
  have a: "Next insertionSort example_Compare (newSortIter example_Sort []) =
     Returned (Inl EOF, (newSortIter example_Sort [])\<lparr>sortIter_idx := 0\<rparr>)"
    by (simp add: Next_def Next_emit_def computeSortedRows_def newSortIter_def insertionSort_def)
  have b: "Next insertionSort example_Compare (newSortIter example_Sort example_failing_child) =
     Returned (Inl (Failure ''boom''), newSortIter example_Sort [Inr [IntV 1]])"
    by (simp add: example_failing_child_def Next_def computeSortedRows_def newSortIter_def)
  from sortIter_Next_terminal [where sort_Sort = insertionSort and Compare = example_Compare
      and i = "newSortIter example_Sort []"
      and i' = "(newSortIter example_Sort [])\<lparr>sortIter_idx := 0\<rparr>"] a
  have c: "Next_after insertionSort example_Compare 3 ((newSortIter example_Sort [])\<lparr>sortIter_idx := 0\<rparr>) =
     Returned (Inl EOF, (newSortIter example_Sort [])\<lparr>sortIter_idx := 0\<rparr>)" by blast
  from sortIter_Next_terminal [where sort_Sort = insertionSort and Compare = example_Compare
      and i = "newSortIter example_Sort example_failing_child"
      and i' = "newSortIter example_Sort [Inr [IntV 1]]" and err = "Failure ''boom''"] b
  have d: "sortIter_idx (newSortIter example_Sort [Inr [IntV 1]]) = - 1 \<and>
   (\<exists>child'. computeSortedRows_loop example_failing_child [] = (Inl (Failure ''boom''), child'))"
    by (auto simp: newSortIter_def)
  from c d show ?thesis by simp
qed

subsection \<open>tree\_entries: the iterator of all trees\<close>

text \<open>Without a requested hash the table reads every tree that the tree iterator of the
  repository yields: one call of \<open>Next\<close> returns the first of the pending results
  (\<open>io.EOF\<close> when none is left) and leaves the others pending.\<close>

lemma treeEntryIter_Next_pending:
  "tei_i i = Some iter \<Longrightarrow>
   \<exists>i'. treeEntryIter_Next i = Returned (hd (tei_pending i @ [Inl EOF]), i') \<and>
        tei_i i' \<noteq> None \<and> tei_repoID i' = tei_repoID i \<and>
        tei_pending i' = tl (tei_pending i)"
proof (induction i arbitrary: iter rule: treeEntryIter_Next.induct)
  case (1 i)
  note it = "1.prems"
  show ?case
  proof (cases "tei_tree i")
    case None
    show ?thesis
    proof (cases iter)
      case Nil
      with None it show ?thesis
        by (subst treeEntryIter_Next.simps) (simp add: tei_pending_def rows_of_result_def drop_map)
    next
      case (Cons x rest)
      show ?thesis
      proof (cases x)
        case (Inl err)
        with None it Cons show ?thesis
          by (subst treeEntryIter_Next.simps) (simp add: tei_pending_def rows_of_result_def drop_map)
      next
        case (Inr t)
        show ?thesis
        proof (cases "Entries t")
          case Nil
          then have e: "treeEntryIter_entry
              (i\<lparr>tei_i := Some rest, tei_tree := Some t, tei_cursor := 0\<rparr>) t = None"
            by (simp add: treeEntryIter_entry_def)
          let ?i = "i\<lparr>tei_i := Some rest, tei_tree := None, tei_cursor := 0\<rparr>"
          have "tei_i ?i = Some rest" by simp
          from "1.IH"(1) [OF None it Cons Inr e this]
          obtain i' where
            "treeEntryIter_Next ?i = Returned (hd (tei_pending ?i @ [Inl EOF]), i')"
            "tei_i i' \<noteq> None" "tei_repoID i' = tei_repoID i"
            "tei_pending i' = tl (tei_pending ?i)"
            by (auto simp del: treeEntryIter_Next.simps)
          moreover have "tei_pending ?i = tei_pending i"
            using None it Cons Inr Nil by (simp add: tei_pending_def rows_of_result_def drop_map)
          moreover have "treeEntryIter_Next i = treeEntryIter_Next ?i"
            using None it Cons Inr e by (subst treeEntryIter_Next.simps) simp
          ultimately show ?thesis by (auto simp del: treeEntryIter_Next.simps)
        next
          case (Cons e0 es)
          with None it \<open>iter = x # rest\<close> Inr show ?thesis
            by (subst treeEntryIter_Next.simps)
               (simp add: tei_pending_def rows_of_result_def drop_map treeEntryIter_entry_def)
        qed
      qed
    qed
  next
    case (Some t)
    show ?thesis
    proof (cases "tei_cursor i \<ge> length (Entries t)")
      case True
      then have e: "treeEntryIter_entry i t = None" by (simp add: treeEntryIter_entry_def)
      let ?i = "i\<lparr>tei_tree := None\<rparr>"
      have "tei_i ?i = Some iter" using it by simp
      from "1.IH"(2) [OF Some e this]
      obtain i' where
        "treeEntryIter_Next ?i = Returned (hd (tei_pending ?i @ [Inl EOF]), i')"
        "tei_i i' \<noteq> None" "tei_repoID i' = tei_repoID i"
        "tei_pending i' = tl (tei_pending ?i)"
        by (auto simp del: treeEntryIter_Next.simps)
      moreover have "tei_pending ?i = tei_pending i"
        using Some True by (simp add: tei_pending_def rows_of_result_def drop_map)
      moreover have "treeEntryIter_Next i = treeEntryIter_Next ?i"
        using Some e by (subst treeEntryIter_Next.simps) simp
      ultimately show ?thesis by (auto simp del: treeEntryIter_Next.simps)
    next
      case False
      then have d: "drop (tei_cursor i) (Entries t) =
          Entries t ! tei_cursor i # drop (Suc (tei_cursor i)) (Entries t)"
        by (simp add: Cons_nth_drop_Suc)
      with Some False it show ?thesis
        by (subst treeEntryIter_Next.simps)
           (simp add: tei_pending_def rows_of_result_def drop_map treeEntryIter_entry_def)
    qed
  qed
qed

subsection \<open>tree\_entries: the iterator of requested tree hashes\<close>

text \<open>One call of \<open>Next\<close> returns the first of the pending results (\<open>io.EOF\<close> when
  none is left) and leaves the others pending.\<close>

lemma treeEntriesByHashIter_Next_pending:
  "bh_repo i = Some repo \<Longrightarrow>
   \<exists>i'. treeEntriesByHashIter_Next NewHash i =
           Returned (hd (bh_pending NewHash repo i @ [Inl EOF]), i') \<and>
        bh_repo i' = Some repo \<and> bh_hashes i' = bh_hashes i \<and>
        bh_pending NewHash repo i' = tl (bh_pending NewHash repo i)"
proof (induction NewHash i rule: treeEntriesByHashIter_Next.induct)
  case (1 NewHash i)
  show ?case
  proof (cases "bh_tree i")
    case None
    show ?thesis
    proof (cases "bh_pos i \<ge> length (bh_hashes i)")
      case True
      with None show ?thesis
        using "1.prems" by (simp add: bh_pending_def)
    next
      case False
      then have d: "drop (bh_pos i) (bh_hashes i) =
          bh_hashes i ! bh_pos i # drop (Suc (bh_pos i)) (bh_hashes i)"
        by (simp add: Cons_nth_drop_Suc)
      show ?thesis
      proof (cases "repo_TreeObject repo (NewHash (bh_hashes i ! bh_pos i))")
        case (Inl err)
        show ?thesis
        proof (cases "err = ErrObjectNotFound")
          case True
          from "1.IH"(1) [OF _ None "1.prems" Inl True] False "1.prems"
          obtain i' where
            "treeEntriesByHashIter_Next NewHash (i\<lparr>bh_pos := bh_pos i + 1\<rparr>) =
               Returned (hd (bh_pending NewHash repo (i\<lparr>bh_pos := bh_pos i + 1\<rparr>) @ [Inl EOF]), i')"
            "bh_repo i' = Some repo" "bh_hashes i' = bh_hashes i"
            "bh_pending NewHash repo i' = tl (bh_pending NewHash repo (i\<lparr>bh_pos := bh_pos i + 1\<rparr>))"
            by auto
          moreover have "bh_pending NewHash repo (i\<lparr>bh_pos := bh_pos i + 1\<rparr>) = bh_pending NewHash repo i"
            using None Inl True d by (simp add: bh_pending_def rows_of_hash_def)
          ultimately show ?thesis
            using None False "1.prems" Inl True by simp
        next
          case nf: False
          have "bh_pending NewHash repo i =
              Inl err # bh_pending NewHash repo (i\<lparr>bh_pos := bh_pos i + 1\<rparr>)"
            using None Inl nf d by (simp add: bh_pending_def rows_of_hash_def)
          then show ?thesis
            using None False "1.prems" Inl nf by simp
        qed
      next
        case (Inr t)
        show ?thesis
        proof (cases "Entries t")
          case Nil
          then have e: "treeEntriesByHashIter_entry
               (i\<lparr>bh_pos := bh_pos i + 1, bh_tree := Some t, bh_cursor := 0\<rparr>) t = None"
            by (simp add: treeEntriesByHashIter_entry_def)
          from "1.IH"(2) [OF _ None "1.prems" Inr e] False "1.prems"
          obtain i' where
            "treeEntriesByHashIter_Next NewHash (i\<lparr>bh_pos := bh_pos i + 1, bh_tree := None, bh_cursor := 0\<rparr>) =
               Returned (hd (bh_pending NewHash repo (i\<lparr>bh_pos := bh_pos i + 1, bh_tree := None, bh_cursor := 0\<rparr>) @ [Inl EOF]), i')"
            "bh_repo i' = Some repo" "bh_hashes i' = bh_hashes i"
            "bh_pending NewHash repo i' = tl (bh_pending NewHash repo (i\<lparr>bh_pos := bh_pos i + 1, bh_tree := None, bh_cursor := 0\<rparr>))"
            by auto
          moreover have "bh_pending NewHash repo (i\<lparr>bh_pos := bh_pos i + 1, bh_tree := None, bh_cursor := 0\<rparr>) = bh_pending NewHash repo i"
            using None Inr Nil d by (simp add: bh_pending_def rows_of_hash_def)
          ultimately show ?thesis
            using None False "1.prems" Inr e by simp
        next
          case (Cons e0 es)
          have p: "bh_pending NewHash repo i =
              Inr (treeEntryToRow (repo_ID repo) \<lparr>TreeHash = tree_Hash t, Entry = e0\<rparr>) #
              bh_pending NewHash repo (i\<lparr>bh_pos := bh_pos i + 1, bh_tree := Some t, bh_cursor := 1\<rparr>)"
            using None Inr Cons d by (simp add: bh_pending_def rows_of_hash_def)
          show ?thesis
            using None False "1.prems" Inr Cons p
            by (simp add: treeEntriesByHashIter_entry_def)
        qed
      qed
    qed
  next
    case (Some t)
    show ?thesis
    proof (cases "bh_cursor i \<ge> length (Entries t)")
      case True
      then have e: "treeEntriesByHashIter_entry i t = None"
        by (simp add: treeEntriesByHashIter_entry_def)
      from "1.IH"(3) [OF _ Some e] Some "1.prems"
      obtain i' where
        "treeEntriesByHashIter_Next NewHash (i\<lparr>bh_tree := None\<rparr>) =
           Returned (hd (bh_pending NewHash repo (i\<lparr>bh_tree := None\<rparr>) @ [Inl EOF]), i')"
        "bh_repo i' = Some repo" "bh_hashes i' = bh_hashes i"
        "bh_pending NewHash repo i' = tl (bh_pending NewHash repo (i\<lparr>bh_tree := None\<rparr>))"
        by auto
      moreover have "bh_pending NewHash repo (i\<lparr>bh_tree := None\<rparr>) = bh_pending NewHash repo i"
        using Some True by (simp add: bh_pending_def)
      ultimately show ?thesis
        using Some e by simp
    next
      case False
      then have d: "drop (bh_cursor i) (Entries t) =
          Entries t ! bh_cursor i # drop (Suc (bh_cursor i)) (Entries t)"
        by (simp add: Cons_nth_drop_Suc)
      have p: "bh_pending NewHash repo i =
          Inr (treeEntryToRow (repo_ID repo) \<lparr>TreeHash = tree_Hash t, Entry = Entries t ! bh_cursor i\<rparr>) #
          bh_pending NewHash repo (i\<lparr>bh_cursor := bh_cursor i + 1\<rparr>)"
        using Some d by (simp add: bh_pending_def)
      show ?thesis
        using Some False "1.prems" p by (simp add: treeEntriesByHashIter_entry_def)
    qed
  qed
qed

lemma take_append_replicate_Suc:
  "take n (xs @ replicate (Suc n) x) = take n (xs @ replicate n x)"
proof -
  have "xs @ replicate (Suc n) x = (xs @ replicate n x) @ [x]"
    by (simp add: replicate_append_same)
  then show ?thesis by simp
qed

lemma treeEntriesByHashIter_results_pending:
  "bh_repo i = Some repo \<Longrightarrow>
   treeEntriesByHashIter_results NewHash n i =
     Returned (take n (bh_pending NewHash repo i @ replicate n (Inl EOF)))"
proof (induction n arbitrary: i)
  case 0
  show ?case by simp
next
  case (Suc n)
  from treeEntriesByHashIter_Next_pending [OF Suc.prems, of NewHash]
  obtain i' where nx: "treeEntriesByHashIter_Next NewHash i =
           Returned (hd (bh_pending NewHash repo i @ [Inl EOF]), i')"
    and r: "bh_repo i' = Some repo"
    and p: "bh_pending NewHash repo i' = tl (bh_pending NewHash repo i)" by blast
  from Suc.IH [OF r] p have rs: "treeEntriesByHashIter_results NewHash n i' =
     Returned (take n (tl (bh_pending NewHash repo i) @ replicate n (Inl EOF)))" by simp
  show ?case
  proof (cases "bh_pending NewHash repo i")
    case Nil
    with nx rs show ?thesis
      by (simp del: treeEntriesByHashIter_Next.simps)
  next
    case (Cons x xs)
    with nx rs show ?thesis
      using take_append_replicate_Suc [of n xs "Inl EOF"]
      by (simp del: treeEntriesByHashIter_Next.simps)
  qed
qed

text \<open>Every row among the requested rows is the row of an entry of a tree that the store
  returned for the hash of a requested text, and has the hash of that tree in the column
  \<open>tree_hash\<close>.\<close>

lemma requested_rows_found:
  assumes "Inr row \<in> set (requested_rows NewHash repo hashes)"
  shows "\<exists>h \<in> set hashes. \<exists>t. repo_TreeObject repo (NewHash h) = Inr t \<and>
           length row = 5 \<and> row ! 3 = StrV (tree_Hash t) \<and>
           (\<exists>e \<in> set (Entries t).
              row = treeEntryToRow (repo_ID repo) \<lparr>TreeHash = tree_Hash t, Entry = e\<rparr>)"
proof -
  from assms obtain h where h: "h \<in> set hashes" and
    r: "Inr row \<in> set (rows_of_hash NewHash repo h)"
    by (auto simp: requested_rows_def)
  show ?thesis
  proof (cases "repo_TreeObject repo (NewHash h)")
    case (Inl err)
    with r show ?thesis by (auto simp: rows_of_hash_def split: if_splits)
  next
    case (Inr t)
    with r obtain e where e: "e \<in> set (Entries t)"
      and w: "row = treeEntryToRow (repo_ID repo) \<lparr>TreeHash = tree_Hash t, Entry = e\<rparr>"
      by (auto simp: rows_of_hash_def)
    from w have "length row = 5" and "row ! 3 = StrV (tree_Hash t)"
      by (simp_all add: treeEntryToRow_def)
    with h Inr e w show ?thesis by blast
  qed
qed

lemma example_modes: "FormatInt8 33188 = ''100644''" "FormatInt8 16384 = ''40000''"
  by (simp_all add: FormatInt8.simps)

text \<open>
  C2, as the claim states it: the iterator of point lookups never emits a row that
  violates the pushed filter. It does: asked for the hash of the example tree written in
  upper case, it looks the tree up by the decoded hash and emits the rows of its entries
  with the hash in lower case in the column \<open>tree_hash\<close>, which is not the requested
  text. Nothing in \<open>Next\<close> compares a row with the request.
\<close>

theorem treeEntries_pushdown_emits_other_tree_hash:
  "treeEntriesIterBuilder example_textValues example_selectors_upper =
     Inr (TreeEntriesByHashIter
            \<lparr>bh_hashes = [''AAAAAAAAAAAAAAAAAAAAAAAAAAAAAAAAAAAAAAAA''], bh_pos = 0,
             bh_tree = None, bh_cursor = 0, bh_repo = None\<rparr>) \<and>
   treeEntriesByHashIter_results example_NewHash 1
       \<lparr>bh_hashes = [''AAAAAAAAAAAAAAAAAAAAAAAAAAAAAAAAAAAAAAAA''], bh_pos = 0,
        bh_tree = None, bh_cursor = 0, bh_repo = Some example_repo\<rparr> =
     Returned
       [Inr [StrV ''repo'', StrV ''LICENSE'', StrV ''bbbbbbbbbbbbbbbbbbbbbbbbbbbbbbbbbbbbbbbb'',
             StrV ''aaaaaaaaaaaaaaaaaaaaaaaaaaaaaaaaaaaaaaaa'', StrV ''100644'']] \<and>
   StrV ''aaaaaaaaaaaaaaaaaaaaaaaaaaaaaaaaaaaaaaaa''
     \<notin> StrV ` set [''AAAAAAAAAAAAAAAAAAAAAAAAAAAAAAAAAAAAAAAA'']"
proof -
  have b: "treeEntriesIterBuilder example_textValues example_selectors_upper =
     Inr (TreeEntriesByHashIter
            \<lparr>bh_hashes = [''AAAAAAAAAAAAAAAAAAAAAAAAAAAAAAAAAAAAAAAA''], bh_pos = 0,
             bh_tree = None, bh_cursor = 0, bh_repo = None\<rparr>)"
    by (simp add: treeEntriesIterBuilder_def example_textValues_def example_selectors_upper_def)
  have n: "example_NewHash ''AAAAAAAAAAAAAAAAAAAAAAAAAAAAAAAAAAAAAAAA'' =
      ''aaaaaaaaaaaaaaaaaaaaaaaaaaaaaaaaaaaaaaaa''"
    by (simp add: example_NewHash_def hex_lower_def)
  have p: "bh_pending example_NewHash example_repo
       \<lparr>bh_hashes = [''AAAAAAAAAAAAAAAAAAAAAAAAAAAAAAAAAAAAAAAA''], bh_pos = 0,
        bh_tree = None, bh_cursor = 0, bh_repo = Some example_repo\<rparr> =
       [Inr [StrV ''repo'', StrV ''LICENSE'', StrV ''bbbbbbbbbbbbbbbbbbbbbbbbbbbbbbbbbbbbbbbb'',
             StrV ''aaaaaaaaaaaaaaaaaaaaaaaaaaaaaaaaaaaaaaaa'', StrV ''100644''],
        Inr [StrV ''repo'', StrV ''src'', StrV ''cccccccccccccccccccccccccccccccccccccccc'',
             StrV ''aaaaaaaaaaaaaaaaaaaaaaaaaaaaaaaaaaaaaaaa'', StrV ''40000'']]"
    by (simp add: bh_pending_def rows_of_hash_def n example_repo_def example_tree_def
        treeEntryToRow_def example_modes)
  have "treeEntriesByHashIter_results example_NewHash 1
       \<lparr>bh_hashes = [''AAAAAAAAAAAAAAAAAAAAAAAAAAAAAAAAAAAAAAAA''], bh_pos = 0,
        bh_tree = None, bh_cursor = 0, bh_repo = Some example_repo\<rparr> =
     Returned
       [Inr [StrV ''repo'', StrV ''LICENSE'', StrV ''bbbbbbbbbbbbbbbbbbbbbbbbbbbbbbbbbbbbbbbb'',
             StrV ''aaaaaaaaaaaaaaaaaaaaaaaaaaaaaaaaaaaaaaaa'', StrV ''100644'']]"
    using treeEntriesByHashIter_results_pending [of
        "\<lparr>bh_hashes = [''AAAAAAAAAAAAAAAAAAAAAAAAAAAAAAAAAAAAAAAA''], bh_pos = 0,
          bh_tree = None, bh_cursor = 0, bh_repo = Some example_repo\<rparr>"
        example_repo example_NewHash 1]
    by (simp only: p) simp
  with b show ?thesis by simp
qed

text \<open>
  C2, amended: when the pushed filters ask for values of \<open>tree_hash\<close> (the selectors
  of that column are not empty, and \<open>textValues\<close> gives the requested texts),
  \<open>treeEntriesIterBuilder\<close> returns the iterator of point lookups in place of the one
  that enumerates all trees. That iterator looks up \<open>plumbing.NewHash\<close> of each requested
  text in turn: its successive results on a repository are the requested rows, text after
  text, then \<open>io.EOF\<close>. They hold the row of every entry of every tree that the
  repository returns for a requested text. Every row among them is the row of an entry of
  such a tree and has the hash of that tree in column 3, which is \<open>tree_hash\<close>; the
  row is not compared with the requested text.
\<close>

theorem treeEntries_tree_hash_pushdown:
  "Name (TreeEntriesSchema ! 3) = ''tree_hash'' \<and>
   (sel ''tree_hash'' = [] \<longrightarrow>
      treeEntriesIterBuilder textValues sel = Inr (TreeEntryIter new_treeEntryIter)) \<and>
   (sel ''tree_hash'' \<noteq> [] \<and> textValues sel ''tree_hash'' = Inr hashes \<longrightarrow>
      (\<exists>proto i.
         treeEntriesIterBuilder textValues sel = Inr (TreeEntriesByHashIter proto) \<and>
         treeEntriesByHashIter_NewIterator proto repo = Inr i \<and>
         (\<forall>n. treeEntriesByHashIter_results NewHash n i =
                Returned (take n (requested_rows NewHash repo hashes @ replicate n (Inl EOF)))) \<and>
         (\<forall>h \<in> set hashes. \<forall>t. repo_TreeObject repo (NewHash h) = Inr t \<longrightarrow>
            (\<forall>e \<in> set (Entries t).
               Inr (treeEntryToRow (repo_ID repo) \<lparr>TreeHash = tree_Hash t, Entry = e\<rparr>)
                 \<in> set (requested_rows NewHash repo hashes))) \<and>
         (\<forall>row. Inr row \<in> set (requested_rows NewHash repo hashes) \<longrightarrow>
            (\<exists>h \<in> set hashes. \<exists>t. repo_TreeObject repo (NewHash h) = Inr t \<and>
               length row = 5 \<and> row ! 3 = StrV (tree_Hash t) \<and>
               (\<exists>e \<in> set (Entries t).
                  row = treeEntryToRow (repo_ID repo)
                          \<lparr>TreeHash = tree_Hash t, Entry = e\<rparr>)))))"
proof (intro conjI impI)
  show "Name (TreeEntriesSchema ! 3) = ''tree_hash''"
    by (simp add: TreeEntriesSchema_def)
next
  assume "sel ''tree_hash'' = []"
  then show "treeEntriesIterBuilder textValues sel = Inr (TreeEntryIter new_treeEntryIter)"
    by (simp add: treeEntriesIterBuilder_def)
next
  assume a: "sel ''tree_hash'' \<noteq> [] \<and> textValues sel ''tree_hash'' = Inr hashes"
  define proto where "proto =
    \<lparr>bh_hashes = hashes, bh_pos = 0, bh_tree = None, bh_cursor = 0, bh_repo = None\<rparr>"
  define i where "i =
    \<lparr>bh_hashes = hashes, bh_pos = 0, bh_tree = None, bh_cursor = 0, bh_repo = Some repo\<rparr>"
  have b: "treeEntriesIterBuilder textValues sel = Inr (TreeEntriesByHashIter proto)"
    using a by (simp add: treeEntriesIterBuilder_def proto_def)
  have n: "treeEntriesByHashIter_NewIterator proto repo = Inr i"
    by (simp add: treeEntriesByHashIter_NewIterator_def proto_def i_def)
  have p: "bh_pending NewHash repo i = requested_rows NewHash repo hashes"
    by (simp add: bh_pending_def requested_rows_def i_def)
  have "bh_repo i = Some repo" by (simp add: i_def)
  from treeEntriesByHashIter_results_pending [OF this, of NewHash] p
  have r: "\<forall>n. treeEntriesByHashIter_results NewHash n i =
      Returned (take n (requested_rows NewHash repo hashes @ replicate n (Inl EOF)))" by simp
  have c: "\<forall>h \<in> set hashes. \<forall>t. repo_TreeObject repo (NewHash h) = Inr t \<longrightarrow>
            (\<forall>e \<in> set (Entries t).
               Inr (treeEntryToRow (repo_ID repo) \<lparr>TreeHash = tree_Hash t, Entry = e\<rparr>)
                 \<in> set (requested_rows NewHash repo hashes))"
  proof (intro ballI allI impI)
    fix h t e
    assume h: "h \<in> set hashes" and t: "repo_TreeObject repo (NewHash h) = Inr t"
      and e: "e \<in> set (Entries t)"
    from t e have "Inr (treeEntryToRow (repo_ID repo) \<lparr>TreeHash = tree_Hash t, Entry = e\<rparr>)
        \<in> set (rows_of_hash NewHash repo h)"
      by (auto simp: rows_of_hash_def)
    with h show "Inr (treeEntryToRow (repo_ID repo) \<lparr>TreeHash = tree_Hash t, Entry = e\<rparr>)
                 \<in> set (requested_rows NewHash repo hashes)"
      by (auto simp: requested_rows_def)
  qed
  have s: "\<forall>row. Inr row \<in> set (requested_rows NewHash repo hashes) \<longrightarrow>
            (\<exists>h \<in> set hashes. \<exists>t. repo_TreeObject repo (NewHash h) = Inr t \<and>
               length row = 5 \<and> row ! 3 = StrV (tree_Hash t) \<and>
               (\<exists>e \<in> set (Entries t).
                  row = treeEntryToRow (repo_ID repo)
                          \<lparr>TreeHash = tree_Hash t, Entry = e\<rparr>))"
    using requested_rows_found [of _ NewHash repo hashes] by blast
  from b n r c s show "\<exists>proto i.
         treeEntriesIterBuilder textValues sel = Inr (TreeEntriesByHashIter proto) \<and>
         treeEntriesByHashIter_NewIterator proto repo = Inr i \<and>
         (\<forall>n. treeEntriesByHashIter_results NewHash n i =
                Returned (take n (requested_rows NewHash repo hashes @ replicate n (Inl EOF)))) \<and>
         (\<forall>h \<in> set hashes. \<forall>t. repo_TreeObject repo (NewHash h) = Inr t \<longrightarrow>
            (\<forall>e \<in> set (Entries t).
               Inr (treeEntryToRow (repo_ID repo) \<lparr>TreeHash = tree_Hash t, Entry = e\<rparr>)
                 \<in> set (requested_rows NewHash repo hashes))) \<and>
         (\<forall>row. Inr row \<in> set (requested_rows NewHash repo hashes) \<longrightarrow>
            (\<exists>h \<in> set hashes. \<exists>t. repo_TreeObject repo (NewHash h) = Inr t \<and>
               length row = 5 \<and> row ! 3 = StrV (tree_Hash t) \<and>
               (\<exists>e \<in> set (Entries t).
                  row = treeEntryToRow (repo_ID repo)
                          \<lparr>TreeHash = tree_Hash t, Entry = e\<rparr>)))" by blast
qed

theorem treeEntries_tree_hash_pushdown_witness:
  "treeEntriesIterBuilder example_textValues example_selectors =
     Inr (TreeEntriesByHashIter
            \<lparr>bh_hashes = [''aaaaaaaaaaaaaaaaaaaaaaaaaaaaaaaaaaaaaaaa'',
                          ''0000000000000000000000000000000000000000''],
             bh_pos = 0, bh_tree = None, bh_cursor = 0, bh_repo = None\<rparr>) \<and>
   treeEntriesByHashIter_results example_NewHash 4
       \<lparr>bh_hashes = [''aaaaaaaaaaaaaaaaaaaaaaaaaaaaaaaaaaaaaaaa'',
                     ''0000000000000000000000000000000000000000''],
        bh_pos = 0, bh_tree = None, bh_cursor = 0, bh_repo = Some example_repo\<rparr> =
     Returned
       [Inr [StrV ''repo'', StrV ''LICENSE'', StrV ''bbbbbbbbbbbbbbbbbbbbbbbbbbbbbbbbbbbbbbbb'',
             StrV ''aaaaaaaaaaaaaaaaaaaaaaaaaaaaaaaaaaaaaaaa'', StrV ''100644''],
        Inr [StrV ''repo'', StrV ''src'', StrV ''cccccccccccccccccccccccccccccccccccccccc'',
             StrV ''aaaaaaaaaaaaaaaaaaaaaaaaaaaaaaaaaaaaaaaa'', StrV ''40000''],
        Inl EOF, Inl EOF]"
proof -
  have s: "example_selectors ''tree_hash'' \<noteq> []"
    by (simp add: example_selectors_def)
  have v: "example_textValues example_selectors ''tree_hash'' =
      Inr [''aaaaaaaaaaaaaaaaaaaaaaaaaaaaaaaaaaaaaaaa'', ''0000000000000000000000000000000000000000'']"
    by (simp add: example_textValues_def example_selectors_def)
  have r: "requested_rows example_NewHash example_repo
       [''aaaaaaaaaaaaaaaaaaaaaaaaaaaaaaaaaaaaaaaa'', ''0000000000000000000000000000000000000000''] =
       [Inr [StrV ''repo'', StrV ''LICENSE'', StrV ''bbbbbbbbbbbbbbbbbbbbbbbbbbbbbbbbbbbbbbbb'',
             StrV ''aaaaaaaaaaaaaaaaaaaaaaaaaaaaaaaaaaaaaaaa'', StrV ''100644''],
        Inr [StrV ''repo'', StrV ''src'', StrV ''cccccccccccccccccccccccccccccccccccccccc'',
             StrV ''aaaaaaaaaaaaaaaaaaaaaaaaaaaaaaaaaaaaaaaa'', StrV ''40000'']]"
    by (simp add: requested_rows_def rows_of_hash_def example_repo_def example_tree_def
        treeEntryToRow_def example_modes example_NewHash_def hex_lower_def)
  from treeEntries_tree_hash_pushdown [of example_selectors example_textValues
      "[''aaaaaaaaaaaaaaaaaaaaaaaaaaaaaaaaaaaaaaaa'', ''0000000000000000000000000000000000000000'']"
      example_repo example_NewHash] s v
  obtain proto i where
    b: "treeEntriesIterBuilder example_textValues example_selectors =
          Inr (TreeEntriesByHashIter proto)"
    and n: "treeEntriesByHashIter_NewIterator proto example_repo = Inr i"
    and rs: "\<forall>n. treeEntriesByHashIter_results example_NewHash n i =
        Returned (take n (requested_rows example_NewHash example_repo
                            [''aaaaaaaaaaaaaaaaaaaaaaaaaaaaaaaaaaaaaaaa'', ''0000000000000000000000000000000000000000''] @
                          replicate n (Inl EOF)))"
    by blast
  from b s v have p: "proto =
      \<lparr>bh_hashes = [''aaaaaaaaaaaaaaaaaaaaaaaaaaaaaaaaaaaaaaaa'', ''0000000000000000000000000000000000000000''],
       bh_pos = 0, bh_tree = None, bh_cursor = 0, bh_repo = None\<rparr>"
    by (simp add: treeEntriesIterBuilder_def)
  with n have i: "i =
      \<lparr>bh_hashes = [''aaaaaaaaaaaaaaaaaaaaaaaaaaaaaaaaaaaaaaaa'', ''0000000000000000000000000000000000000000''],
       bh_pos = 0, bh_tree = None, bh_cursor = 0, bh_repo = Some example_repo\<rparr>"
    by (simp add: treeEntriesByHashIter_NewIterator_def)
  from rs have "treeEntriesByHashIter_results example_NewHash 4 i =
        Returned (take 4 (requested_rows example_NewHash example_repo
                            [''aaaaaaaaaaaaaaaaaaaaaaaaaaaaaaaaaaaaaaaa'', ''0000000000000000000000000000000000000000''] @
                          replicate 4 (Inl EOF)))" by blast
  with r i b p show ?thesis by (simp add: numeral_eq_Suc)
qed

subsection \<open>tree\_entries: the key-value iterator on an object that is not a tree\<close>

text \<open>
  C10: when the object iterator yields an object that is not a tree,
  \<open>treeEntriesKeyValueIter.Next\<close> does not return the invalid-object-type error it
  builds: it goes on with \<open>i.tree\<close> nil (and \<open>i.pos\<close> 0), and what follows is the
  panic of reading the entries of a nil tree.
\<close>

theorem treeEntriesKeyValueIter_Next_not_a_tree:
  "kv_tree i = None \<and> kv_iter i = Inr ob # rest \<and> (\<forall>t. Object ob \<noteq> ObjTree t) \<longrightarrow>
     treeEntriesKeyValueIter_fetch i =
       Inr (i\<lparr>kv_iter := rest, kv_obj := Some ob, kv_tree := None, kv_pos := 0\<rparr>) \<and>
     treeEntriesKeyValueIter_Next encodeIndexKey rowIndexValues i =
       Panicked ''nil pointer dereference'' \<and>
     (\<forall>i'. treeEntriesKeyValueIter_Next encodeIndexKey rowIndexValues i \<noteq>
       Returned (Inl ErrInvalidObjectType, i'))"
proof (intro impI)
  assume a: "kv_tree i = None \<and> kv_iter i = Inr ob # rest \<and> (\<forall>t. Object ob \<noteq> ObjTree t)"
  then have t: "(case Object ob of ObjTree t \<Rightarrow> Some t | _ \<Rightarrow> None) = None"
    by (cases "Object ob") auto
  with a have f: "treeEntriesKeyValueIter_fetch i =
       Inr (i\<lparr>kv_iter := rest, kv_obj := Some ob, kv_tree := None, kv_pos := 0\<rparr>)"
    by (simp add: treeEntriesKeyValueIter_fetch_def)
  have e: "treeEntriesKeyValueIter_entry encodeIndexKey rowIndexValues
      (i\<lparr>kv_iter := rest, kv_obj := Some ob, kv_tree := None, kv_pos := 0\<rparr>) =
      Some (Panicked ''nil pointer dereference'')"
    by (simp add: treeEntriesKeyValueIter_entry_def)
  from a f e have "treeEntriesKeyValueIter_Next encodeIndexKey rowIndexValues i =
       Panicked ''nil pointer dereference''"
    by (subst treeEntriesKeyValueIter_Next.simps) simp
  with f show "treeEntriesKeyValueIter_fetch i =
       Inr (i\<lparr>kv_iter := rest, kv_obj := Some ob, kv_tree := None, kv_pos := 0\<rparr>) \<and>
     treeEntriesKeyValueIter_Next encodeIndexKey rowIndexValues i =
       Panicked ''nil pointer dereference'' \<and>
     (\<forall>i'. treeEntriesKeyValueIter_Next encodeIndexKey rowIndexValues i \<noteq>
       Returned (Inl ErrInvalidObjectType, i'))" by simp
qed

theorem treeEntriesKeyValueIter_Next_not_a_tree_witness:
  "treeEntriesKeyValueIter_Next (\<lambda>k. Inr (key_Repository k)) (\<lambda>row cols schema. Inr row)
     example_keyValueIter = Panicked ''nil pointer dereference''"
  using treeEntriesKeyValueIter_Next_not_a_tree [of example_keyValueIter
      "\<lparr>RepositoryID = ''repo'', Packfile = ''pp'', Offset = 12, Object = ObjBlob\<rparr>" "[]"
      "\<lambda>k. Inr (key_Repository k)" "\<lambda>row cols schema. Inr row"]
  by (simp add: example_keyValueIter_def del: treeEntriesKeyValueIter_Next.simps)

subsection \<open>parseDirectory\<close>

lemma parseDirectory_loop_step_valid:
  "valid_option lib (k, v) \<Longrightarrow>
   \<exists>dir'. parseDirectory_loop lib ((k, v) # query) dir = parseDirectory_loop lib query dir' \<and>
     Path dir' = Path dir"
  by (cases "strconv_Atoi lib (v ! 0)") (auto simp: valid_option_def Let_def)

lemma parseDirectory_loop_step_invalid:
  "\<not> valid_option lib (k, v) \<Longrightarrow>
   parseDirectory_loop lib ((k, v) # query) dir = (dir, Some ErrInvalid)"
  by (cases "strconv_Atoi lib (v ! 0)") (auto simp: valid_option_def Let_def)

lemma parseDirectory_loop_valid:
  "list_all (valid_option lib) query \<Longrightarrow>
   snd (parseDirectory_loop lib query dir) = None \<and>
   Path (fst (parseDirectory_loop lib query dir)) = Path dir"
proof (induction query arbitrary: dir)
  case Nil
  show ?case by simp
next
  case (Cons kv query)
  obtain k v where kv: "kv = (k, v)" by (cases kv)
  with Cons.prems have "valid_option lib (k, v)" and r: "list_all (valid_option lib) query"
    by simp_all
  from parseDirectory_loop_step_valid [OF this(1), where dir = dir and query = query]
  obtain dir' where "parseDirectory_loop lib ((k, v) # query) dir = parseDirectory_loop lib query dir'"
    "Path dir' = Path dir" by blast
  with Cons.IH [OF r, of dir'] kv show ?case by simp
qed

lemma parseDirectory_loop_invalid:
  "\<not> list_all (valid_option lib) query \<Longrightarrow>
   snd (parseDirectory_loop lib query dir) = Some ErrInvalid"
proof (induction query arbitrary: dir)
  case Nil
  then show ?case by simp
next
  case (Cons kv query)
  obtain k v where kv: "kv = (k, v)" by (cases kv)
  show ?case
  proof (cases "valid_option lib (k, v)")
    case True
    with Cons.prems kv have r: "\<not> list_all (valid_option lib) query" by simp
    from parseDirectory_loop_step_valid [OF True, where dir = dir and query = query]
    obtain dir' where
      "parseDirectory_loop lib ((k, v) # query) dir = parseDirectory_loop lib query dir'" by blast
    with Cons.IH [OF r, of dir'] kv show ?thesis by simp
  next
    case False
    from parseDirectory_loop_step_invalid [OF False, where dir = dir and query = query] kv show ?thesis by simp
  qed
qed

text \<open>
  C7, as the claim states it: a directory URI of any scheme other than \<open>file\<close> yields
  an invalid-option error. It does not: for \<open>http://host/repos\<close> the error is the one
  that says that the scheme is not supported, which is not \<open>ErrInvalid\<close>.
\<close>

theorem parseDirectory_other_scheme_not_ErrInvalid:
  "parseDirectory example_library (example_directory ''http://host/repos'') =
     (example_directory ''http://host/repos'', Some (ErrSchemeNotSupported ''http://host/repos'')) \<and>
   ErrSchemeNotSupported ''http://host/repos'' \<noteq> ErrInvalid"
  by (simp add: parseDirectory_def example_library_def example_directory_def uriReg_Match_def
      is_word_char_def Let_def)

text \<open>
  C7, amended: a path that is not a URI (it does not match \<open>uriReg\<close>) is returned
  unchanged, without error. For a URI, an error of \<open>url.ParseRequestURI\<close> is returned
  as it is, and a scheme other than \<open>file\<close> yields the error that the scheme is not
  supported. With the scheme \<open>file\<close> the directory is accepted, with the host and the
  path joined as its path, exactly when every key of the query has a single value and is,
  in lower case, one of \<open>format\<close> (value \<open>git\<close> or \<open>siva\<close>), \<open>bare\<close>
  (\<open>true\<close> or \<open>false\<close>), \<open>rooted\<close> (\<open>true\<close> or \<open>false\<close>) or
  \<open>bucket\<close> (a value that \<open>strconv.Atoi\<close> reads); otherwise the error is
  \<open>ErrInvalid\<close>.
\<close>

theorem parseDirectory_accepts:
  "(\<not> uriReg_Match (Path dir) \<longrightarrow> parseDirectory lib dir = (dir, None)) \<and>
   (uriReg_Match (Path dir) \<and> url_ParseRequestURI lib (Path dir) = Inl err \<longrightarrow>
      parseDirectory lib dir = (dir, Some err)) \<and>
   (uriReg_Match (Path dir) \<and> url_ParseRequestURI lib (Path dir) = Inr u \<and>
    url_Scheme u \<noteq> ''file'' \<longrightarrow>
      parseDirectory lib dir = (dir, Some (ErrSchemeNotSupported (Path dir)))) \<and>
   (uriReg_Match (Path dir) \<and> url_ParseRequestURI lib (Path dir) = Inr u \<and>
    url_Scheme u = ''file'' \<longrightarrow>
      (list_all (valid_option lib) (url_Query u) \<longrightarrow>
         snd (parseDirectory lib dir) = None \<and>
         Path (fst (parseDirectory lib dir)) = filepath_Join lib (url_Hostname u) (url_Path u)) \<and>
      (\<not> list_all (valid_option lib) (url_Query u) \<longrightarrow>
         snd (parseDirectory lib dir) = Some ErrInvalid))"
proof (intro conjI impI)
  show "parseDirectory lib dir = (dir, None)" if "\<not> uriReg_Match (Path dir)"
    using that by (simp add: parseDirectory_def)
  show "parseDirectory lib dir = (dir, Some err)"
    if "uriReg_Match (Path dir) \<and> url_ParseRequestURI lib (Path dir) = Inl err"
    using that by (simp add: parseDirectory_def)
  show "parseDirectory lib dir = (dir, Some (ErrSchemeNotSupported (Path dir)))"
    if "uriReg_Match (Path dir) \<and> url_ParseRequestURI lib (Path dir) = Inr u \<and>
        url_Scheme u \<noteq> ''file''"
    using that by (simp add: parseDirectory_def)
next
  assume a: "uriReg_Match (Path dir) \<and> url_ParseRequestURI lib (Path dir) = Inr u \<and>
    url_Scheme u = ''file''"
  then have p: "parseDirectory lib dir =
      parseDirectory_loop lib (url_Query u)
        (dir\<lparr>Path := filepath_Join lib (url_Hostname u) (url_Path u)\<rparr>)"
    by (simp add: parseDirectory_def)
  {
    assume v: "list_all (valid_option lib) (url_Query u)"
    from parseDirectory_loop_valid [OF v] p
    show "snd (parseDirectory lib dir) = None" by simp
    from parseDirectory_loop_valid [OF v,
        of "dir\<lparr>Path := filepath_Join lib (url_Hostname u) (url_Path u)\<rparr>"] p
    show "Path (fst (parseDirectory lib dir)) = filepath_Join lib (url_Hostname u) (url_Path u)"
      by simp
  }
  {
    assume v: "\<not> list_all (valid_option lib) (url_Query u)"
    from parseDirectory_loop_invalid [OF v] p
    show "snd (parseDirectory lib dir) = Some ErrInvalid" by simp
  }
qed

theorem parseDirectory_accepts_witness:
  "parseDirectory example_library (example_directory ''/var/repos'') =
     (example_directory ''/var/repos'', None) \<and>
   parseDirectory example_library (example_directory ''file://host/%zz'') =
     (example_directory ''file://host/%zz'', Some (Failure ''invalid URL escape'')) \<and>
   parseDirectory example_library (example_directory ''http://host/repos'') =
     (example_directory ''http://host/repos'', Some (ErrSchemeNotSupported ''http://host/repos'')) \<and>
   parseDirectory example_library (example_directory ''file://host/repos?Format=siva&bucket=4'') =
     (\<lparr>Path = ''host/repos'', Format = ''siva'', Bucket = 4, Rooted = True, Bare = False\<rparr>, None) \<and>
   snd (parseDirectory example_library (example_directory ''file://host/repos?depth=1'')) =
     Some ErrInvalid"
proof -
  have m: "\<not> uriReg_Match ''/var/repos''" "uriReg_Match ''file://host/%zz''"
    "uriReg_Match ''http://host/repos''" "uriReg_Match ''file://host/repos?Format=siva&bucket=4''"
    "uriReg_Match ''file://host/repos?depth=1''"
    by (simp_all add: uriReg_Match_def is_word_char_def)
  note t = parseDirectory_accepts [where lib = example_library]
  have 1: "parseDirectory example_library (example_directory ''/var/repos'') =
     (example_directory ''/var/repos'', None)"
    using t [of "example_directory ''/var/repos''"] m
    by (simp add: example_directory_def)
  have 2: "parseDirectory example_library (example_directory ''file://host/%zz'') =
     (example_directory ''file://host/%zz'', Some (Failure ''invalid URL escape''))"
    using t [of "example_directory ''file://host/%zz''" "Failure ''invalid URL escape''"] m
    by (simp add: example_directory_def example_library_def)
  have 3: "parseDirectory example_library (example_directory ''http://host/repos'') =
     (example_directory ''http://host/repos'', Some (ErrSchemeNotSupported ''http://host/repos''))"
    using t [of "example_directory ''http://host/repos''" _
        "\<lparr>url_Scheme = ''http'', url_Hostname = ''host'', url_Path = ''/repos'', url_Query = []\<rparr>"] m
    by (simp add: example_directory_def example_library_def)
  have 4: "snd (parseDirectory example_library
       (example_directory ''file://host/repos?Format=siva&bucket=4'')) = None"
    using t [of "example_directory ''file://host/repos?Format=siva&bucket=4''" _
        "\<lparr>url_Scheme = ''file'', url_Hostname = ''host'', url_Path = ''/repos'',
          url_Query = [(''Format'', [''siva'']), (''bucket'', [''4''])]\<rparr>"] m
    by (simp add: example_directory_def example_library_def valid_option_def)
  have 5: "snd (parseDirectory example_library (example_directory ''file://host/repos?depth=1'')) =
     Some ErrInvalid"
    using t [of "example_directory ''file://host/repos?depth=1''" _
        "\<lparr>url_Scheme = ''file'', url_Hostname = ''host'', url_Path = ''/repos'',
          url_Query = [(''depth'', [''1''])]\<rparr>"] m
    by (simp add: example_directory_def example_library_def valid_option_def)
  have 6: "fst (parseDirectory example_library
       (example_directory ''file://host/repos?Format=siva&bucket=4'')) =
     \<lparr>Path = ''host/repos'', Format = ''siva'', Bucket = 4, Rooted = True, Bare = False\<rparr>"
    using m by (simp add: parseDirectory_def example_directory_def example_library_def Let_def)
  from 1 2 3 4 5 6 show ?thesis by (simp add: prod_eq_iff)
qed

subsection \<open>Session.BblfshClient\<close>














end
